theory Spec2Isabelle
  imports Complex_Main "HOL-Library.Sublist" "HOL-Library.FSet"
begin

section \<open>The inference driver of \<^verbatim>\<open>src/inference.py\<close>\<close>

text \<open>
  The script loads a tokenizer, the input data and a fine-tuned checkpoint, then feeds the
  input to the model's generation routine batch by batch and appends every decoded
  prediction to \<^verbatim>\<open>inference_results.txt\<close>. The tokenizer, the dataset class, the
  checkpoint loader and the generation routine are external collaborators: they are
  parameters of the model below, and each of them may raise.
\<close>

subsection \<open>Data\<close>

text \<open>The Python exceptions that the modelled code can meet.\<close>

datatype error = KeyError string | IndexError | OSError string | RuntimeError string

text \<open>A two-dimensional integer tensor (rows of token ids or of mask bits).\<close>

type_synonym tensor = "int list list"

text \<open>
  The namespace returned by \<^verbatim>\<open>init_args\<close> (lines 24--113). The four float-valued
  options (learning rate, weight decay, Adam epsilon, warm-up steps) are left out: nothing
  in this file reads them. \<^verbatim>\<open>--n_gpu\<close> has no \<^verbatim>\<open>type=\<close> and is only ever
  formatted into the device name, so it is kept as text.
\<close>

record args =
  task :: string
  file_path :: string
  model_name_or_path :: string
  paradigm :: string
  do_train :: bool
  do_eval :: bool
  do_direct_eval :: bool
  max_seq_length :: int
  n_gpu :: string
  train_batch_size :: int
  eval_batch_size :: int
  gradient_accumulation_steps :: int
  num_train_epochs :: int
  seed :: int
  ckpt :: string

text \<open>
  The tokenizer object: the driver calls \<^verbatim>\<open>decode(ids, skip_special_tokens=True)\<close>,
  which returns the text or raises (an id outside the vocabulary, say); the training step
  reads \<^verbatim>\<open>pad_token_id\<close>.
\<close>

record tokenizer =
  decode :: "int list \<Rightarrow> bool \<Rightarrow> error + string"
  pad_token_id :: int

text \<open>
  The pretrained sequence-to-sequence network (\<^verbatim>\<open>T5ForConditionalGeneration\<close>), a
  black box with two entry points: \<^verbatim>\<open>generate(input_ids, attention_mask, max_length)\<close>
  and the forward call with the keyword arguments \<^verbatim>\<open>input_ids\<close>,
  \<^verbatim>\<open>attention_mask\<close>, \<^verbatim>\<open>decoder_input_ids\<close>, \<^verbatim>\<open>decoder_attention_mask\<close> and
  \<^verbatim>\<open>labels\<close>, whose result is a sequence of outputs with the loss first.
\<close>

record t5 =
  generate :: "tensor \<Rightarrow> tensor \<Rightarrow> int \<Rightarrow> error + tensor"
  forward_call :: "tensor \<Rightarrow> tensor option \<Rightarrow> tensor option \<Rightarrow> tensor option
                     \<Rightarrow> tensor option \<Rightarrow> error + rat list"

text \<open>The attributes of a \<^verbatim>\<open>T5FineTuner\<close> instance set in \<^verbatim>\<open>__init__\<close> (lines 128--135).\<close>

record fine_tuner =
  model :: t5
  ft_tokenizer :: tokenizer

text \<open>
  One element of the input dataset. \<^verbatim>\<open>MyDataset\<close> lives in \<^verbatim>\<open>data_utils\<close>; the
  driver reads the keys \<^verbatim>\<open>source_ids\<close> and \<^verbatim>\<open>source_mask\<close> of every batch, so an
  element carries (at least) these two rows.
\<close>

record item =
  item_source_ids :: "int list"
  item_source_mask :: "int list"

text \<open>A collated batch: the rows of its elements, stacked key by key.\<close>

record batch =
  source_ids :: tensor
  source_mask :: tensor

text \<open>An opaque object stored in a checkpoint file.\<close>

datatype blob = Blob string

text \<open>
  The external collaborators whose outcome depends on the file system, on the device and on
  the installed libraries. The first six return the exception they raise as \<open>Inl\<close>.
  The last three say which of the remaining operations of the loop raise, and with what:
  \<^verbatim>\<open>tensor.to(device)\<close> on a batch tensor (line 344), opening the results file in the
  pass over batch \<open>k\<close> (line 350), and the \<open>j\<close>-th write of that pass (line 352);
  \<open>None\<close> is success.
\<close>

record world =
  T5Tokenizer_from_pretrained :: "string \<Rightarrow> error + tokenizer"
  MyDataset :: "tokenizer \<Rightarrow> string \<Rightarrow> string \<Rightarrow> string \<Rightarrow> int \<Rightarrow> error + item list"
  torch_load :: "string \<Rightarrow> error + (string \<rightharpoonup> blob)"
  T5FineTuner_init :: "blob \<Rightarrow> error + fine_tuner"
  load_state_dict :: "fine_tuner \<Rightarrow> blob \<Rightarrow> error + fine_tuner"
  to_device :: "t5 \<Rightarrow> string \<Rightarrow> error + t5"
  to_raises :: "tensor \<Rightarrow> string \<Rightarrow> error option"
  open_raises :: "nat \<Rightarrow> error option"
  write_raises :: "nat \<Rightarrow> nat \<Rightarrow> error option"

subsection \<open>The data loader\<close>

text \<open>
  \<^verbatim>\<open>DataLoader(dataset, batch_size, num_workers)\<close> without \<^verbatim>\<open>shuffle\<close> and without
  \<^verbatim>\<open>drop_last\<close>: the elements are taken in their order, \<^verbatim>\<open>batch_size\<close> at a time, the
  last batch holding what is left. The worker count changes who fetches a batch, not the
  order in which the batches are handed out.
\<close>

record data_loader =
  dataset :: "item list"
  batch_size :: nat
  num_workers :: nat

definition DataLoader :: "item list \<Rightarrow> nat \<Rightarrow> nat \<Rightarrow> data_loader" where
  "DataLoader ds bs nw = \<lparr>dataset = ds, batch_size = bs, num_workers = nw\<rparr>"

function chunks :: "nat \<Rightarrow> 'a list \<Rightarrow> 'a list list" where
  "chunks n xs = (if n = 0 \<or> xs = [] then [] else take n xs # chunks n (drop n xs))"
  by pat_completeness auto
termination
  by (relation "measure (\<lambda>(n, xs). length xs)") auto

declare chunks.simps [simp del]

text \<open>
  The loader's default collate function stacks the rows of the elements key by key, and
  stacking raises when the rows differ in length.
\<close>

definition default_collate :: "item list \<Rightarrow> error + batch" where
  "default_collate its =
     (case its of
        [] \<Rightarrow> Inl IndexError
      | x # rest \<Rightarrow>
          if list_all (\<lambda>y. length (item_source_ids y) = length (item_source_ids x)) its \<and>
             list_all (\<lambda>y. length (item_source_mask y) = length (item_source_mask x)) its
          then Inr \<lparr>source_ids = map item_source_ids its,
                    source_mask = map item_source_mask its\<rparr>
          else Inl (RuntimeError ''stack expects each tensor to be equal size''))"

text \<open>
  Iterating over the loader hands out the collated batches one after the other; the first
  batch that cannot be collated ends the iteration with its error, raised when the loop asks
  for that batch. The pair is the batches handed out and the error that follows them, if any.
\<close>

fun collate_batches :: "item list list \<Rightarrow> batch list \<times> error option" where
  "collate_batches [] = ([], None)"
| "collate_batches (c # cs) =
     (case default_collate c of
        Inl e \<Rightarrow> ([], Some e)
      | Inr b \<Rightarrow> (case collate_batches cs of (bs, r) \<Rightarrow> (b # bs, r)))"

definition batches :: "data_loader \<Rightarrow> batch list" where
  "batches dl = fst (collate_batches (chunks (batch_size dl) (dataset dl)))"

definition loader_error :: "data_loader \<Rightarrow> error option" where
  "loader_error dl = snd (collate_batches (chunks (batch_size dl) (dataset dl)))"

subsection \<open>Observable state\<close>

text \<open>
  What a run leaves behind: the sequence of steps it took and the contents of the results
  file (\<open>None\<close> while the file does not exist). The steps carry the index of the batch
  they work on; \<open>ENCODE k n\<close> is the loader handing out batch \<open>k\<close> with \<open>n\<close> encoded
  rows, \<open>GENERATE k m\<close> the call of the generation routine on batch \<open>k\<close> with
  \<^verbatim>\<open>max_length\<close> \<open>m\<close>.
\<close>

datatype event =
    LOAD_TOKENIZER
  | LOAD_INPUT
  | LOAD_CHECKPOINT
  | ENCODE nat nat
  | GENERATE nat int
  | DECODE nat
  | APPEND_TO_OUTPUT nat
  | DONE

record state =
  trace :: "event list"
  results_file :: "string option"

definition emit :: "event \<Rightarrow> state \<Rightarrow> state" where
  "emit e st = st\<lparr>trace := trace st @ [e]\<rparr>"

abbreviation newline :: char where
  "newline \<equiv> CHR 0x0A"

text \<open>
  \<^verbatim>\<open>open("inference_results.txt", "a+")\<close> creates the file when it is missing and puts
  every write at the end of what the file holds (lines 350--352). An open that raises leaves
  the file as it was; a write that raises leaves the lines written before it, and the
  \<^verbatim>\<open>with\<close> block closes the file on the way out.
\<close>

definition open_append :: "string option \<Rightarrow> string" where
  "open_append f = (case f of None \<Rightarrow> [] | Some c \<Rightarrow> c)"

fun write_all :: "world \<Rightarrow> nat \<Rightarrow> nat \<Rightarrow> string list \<Rightarrow> string \<Rightarrow> error option \<times> string" where
  "write_all w k j [] c = (None, c)"
| "write_all w k j (d # ds) c =
     (case write_raises w k j of
        Some e \<Rightarrow> (Some e, c)
      | None \<Rightarrow> write_all w k (Suc j) ds (c @ d @ [newline]))"

definition append_results :: "world \<Rightarrow> nat \<Rightarrow> string list \<Rightarrow> state \<Rightarrow> error option \<times> state" where
  "append_results w k dec st =
     (case open_raises w k of
        Some e \<Rightarrow> (Some e, st)
      | None \<Rightarrow>
          (case write_all w k 0 dec (open_append (results_file st)) of
             (r, c) \<Rightarrow> (r, st\<lparr>results_file := Some c\<rparr>)))"

subsection \<open>Start-up (lines 310--339)\<close>

text \<open>
  The statements of the script up to the loop, in their order: the tokenizer (line 314),
  the dataset and its loader (lines 323--330), then the checkpoint: \<^verbatim>\<open>torch.load\<close>,
  the model built from the entry \<^verbatim>\<open>hyper_parameters\<close>, the weights of the entry
  \<^verbatim>\<open>state_dict\<close>, the move to the device (lines 333--339). Each step that can raise
  ends the start-up with its error. \<^verbatim>\<open>seed_everything\<close> and \<^verbatim>\<open>model.model.eval()\<close>
  set a seed and a flag and leave no mark on what is observed here.
\<close>

definition device_of :: "args \<Rightarrow> string" where
  "device_of a = ''cuda:'' @ n_gpu a"

definition startup ::
  "args \<Rightarrow> world \<Rightarrow> state \<Rightarrow> (error + tokenizer \<times> data_loader \<times> fine_tuner) \<times> state" where
  "startup a w st0 =
     (let st1 = emit LOAD_TOKENIZER st0 in
      case T5Tokenizer_from_pretrained w (model_name_or_path a) of
        Inl e \<Rightarrow> (Inl e, st1)
      | Inr tk \<Rightarrow>
     (let st2 = emit LOAD_INPUT st1 in
      case MyDataset w tk (file_path a) (paradigm a) (task a) (max_seq_length a) of
        Inl e \<Rightarrow> (Inl e, st2)
      | Inr input_data \<Rightarrow>
     (let dl = DataLoader input_data 32 4;
          st3 = emit LOAD_CHECKPOINT st2 in
      case torch_load w (ckpt a) of
        Inl e \<Rightarrow> (Inl e, st3)
      | Inr model_ckpt \<Rightarrow>
     (case model_ckpt ''hyper_parameters'' of
        None \<Rightarrow> (Inl (KeyError ''hyper_parameters''), st3)
      | Some hp \<Rightarrow>
     (case T5FineTuner_init w hp of
        Inl e \<Rightarrow> (Inl e, st3)
      | Inr m0 \<Rightarrow>
     (case model_ckpt ''state_dict'' of
        None \<Rightarrow> (Inl (KeyError ''state_dict''), st3)
      | Some sd \<Rightarrow>
     (case load_state_dict w m0 sd of
        Inl e \<Rightarrow> (Inl e, st3)
      | Inr m1 \<Rightarrow>
     (case to_device w (model m1) (device_of a) of
        Inl e \<Rightarrow> (Inl e, st3)
      | Inr net \<Rightarrow> (Inr (tk, dl, m1\<lparr>model := net\<rparr>), st3)))))))))"

subsection \<open>The inference loop (lines 341--352)\<close>

text \<open>A tensor moved to the device holds the same numbers; the move itself may raise.\<close>

definition tensor_to :: "world \<Rightarrow> tensor \<Rightarrow> string \<Rightarrow> error + tensor" where
  "tensor_to w t device = (case to_raises w t device of Some e \<Rightarrow> Inl e | None \<Rightarrow> Inr t)"

definition call_generate ::
  "t5 \<Rightarrow> nat \<Rightarrow> tensor \<Rightarrow> tensor \<Rightarrow> int \<Rightarrow> state \<Rightarrow> (error + tensor) \<times> state" where
  "call_generate net k ids amask max_length st =
     (generate net ids amask max_length, emit (GENERATE k max_length) st)"

text \<open>
  The list comprehension of line 348 decodes the rows in their order and stops at the first
  row whose decoding raises.
\<close>

fun decode_all :: "tokenizer \<Rightarrow> tensor \<Rightarrow> error + string list" where
  "decode_all tk [] = Inr []"
| "decode_all tk (ids # rest) =
     (case decode tk ids True of
        Inl e \<Rightarrow> Inl e
      | Inr d \<Rightarrow> (case decode_all tk rest of Inl e \<Rightarrow> Inl e | Inr ds \<Rightarrow> Inr (d # ds)))"

text \<open>
  The body of the loop for batch \<open>k\<close>: the two tensors are moved to the device, the
  generation routine is called with \<^verbatim>\<open>max_length=128\<close>, its rows are decoded, and the
  decoded strings are written. Whatever raises ends the pass with its error.
\<close>

definition process_batch ::
  "world \<Rightarrow> t5 \<Rightarrow> tokenizer \<Rightarrow> string \<Rightarrow> nat \<Rightarrow> batch \<Rightarrow> state \<Rightarrow> error option \<times> state" where
  "process_batch w net tk device k b st =
     (let st1 = emit (ENCODE k (length (source_ids b))) st in
      case tensor_to w (source_ids b) device of
        Inl e \<Rightarrow> (Some e, st1)
      | Inr input_ids \<Rightarrow>
     (case tensor_to w (source_mask b) device of
        Inl e \<Rightarrow> (Some e, st1)
      | Inr attention_mask \<Rightarrow>
     (case call_generate net k input_ids attention_mask 128 st1 of
        (Inl e, st2) \<Rightarrow> (Some e, st2)
      | (Inr outs, st2) \<Rightarrow>
     (let st3 = emit (DECODE k) st2 in
      case decode_all tk outs of
        Inl e \<Rightarrow> (Some e, st3)
      | Inr dec \<Rightarrow> append_results w k dec (emit (APPEND_TO_OUTPUT k) st3)))))"

fun inference_loop ::
  "world \<Rightarrow> t5 \<Rightarrow> tokenizer \<Rightarrow> string \<Rightarrow> batch list \<Rightarrow> nat \<Rightarrow> state
     \<Rightarrow> error option \<times> state" where
  "inference_loop w net tk device [] k st = (None, st)"
| "inference_loop w net tk device (b # bs) k st =
     (case process_batch w net tk device k b st of
        (Some e, st') \<Rightarrow> (Some e, st')
      | (None, st') \<Rightarrow> inference_loop w net tk device bs (Suc k) st')"

text \<open>
  The script: start-up, then the loop over the batches that the loader hands out; when the
  loader raises instead of handing out the next batch, the run ends with that error.
\<close>

definition main :: "args \<Rightarrow> world \<Rightarrow> string option \<Rightarrow> error option \<times> state" where
  "main a w f0 =
     (case startup a w \<lparr>trace = [], results_file = f0\<rparr> of
        (Inl e, st) \<Rightarrow> (Some e, st)
      | (Inr (tk, dl, m), st) \<Rightarrow>
          (case inference_loop w (model m) tk (device_of a) (batches dl) 0 st of
             (Some e, st') \<Rightarrow> (Some e, st')
           | (None, st') \<Rightarrow>
               (case loader_error dl of
                  Some e \<Rightarrow> (Some e, st')
                | None \<Rightarrow> (None, emit DONE st'))))"

subsection \<open>Vocabulary for the statements about the driver\<close>

text \<open>
  The lines of a text, as reading the file line by line gives them: each line ends at a
  newline, and a last piece without newline is a line of its own.
\<close>

fun text_lines_from :: "string \<Rightarrow> string \<Rightarrow> string list" where
  "text_lines_from cur [] = (if cur = [] then [] else [cur])"
| "text_lines_from cur (c # cs) =
     (if c = newline then cur # text_lines_from [] cs else text_lines_from (cur @ [c]) cs)"

definition text_lines :: "string \<Rightarrow> string list" where
  "text_lines s = text_lines_from [] s"

text \<open>The four steps of one pass of the loop over batch \<open>k\<close>.\<close>

definition batch_events :: "nat \<Rightarrow> batch \<Rightarrow> event list" where
  "batch_events k b =
     [ENCODE k (length (source_ids b)), GENERATE k 128, DECODE k, APPEND_TO_OUTPUT k]"

text \<open>The steps of the passes over consecutive batches, the first of them numbered \<open>k\<close>.\<close>

fun passes :: "nat \<Rightarrow> batch list \<Rightarrow> event list" where
  "passes k [] = []"
| "passes k (b # bs) = batch_events k b @ passes (Suc k) bs"

text \<open>The batch that a step works on, for the steps inside the loop.\<close>

fun batch_index :: "event \<Rightarrow> nat option" where
  "batch_index (ENCODE k n) = Some k"
| "batch_index (GENERATE k m) = Some k"
| "batch_index (DECODE k) = Some k"
| "batch_index (APPEND_TO_OUTPUT k) = Some k"
| "batch_index ev = None"

text \<open>The rows that the generation routine returns for a batch (none when it raises).\<close>

definition generated :: "t5 \<Rightarrow> batch \<Rightarrow> tensor" where
  "generated net b =
     (case generate net (source_ids b) (source_mask b) 128 of Inl e \<Rightarrow> [] | Inr outs \<Rightarrow> outs)"

definition generation_fails :: "t5 \<Rightarrow> batch \<Rightarrow> bool" where
  "generation_fails net b = isl (generate net (source_ids b) (source_mask b) 128)"

text \<open>
  The decoded predictions of a batch, in the order of its rows (none when the generation
  routine or a decoding raises).
\<close>

definition predictions :: "t5 \<Rightarrow> tokenizer \<Rightarrow> batch \<Rightarrow> string list" where
  "predictions net tk b =
     (case decode_all tk (generated net b) of Inl e \<Rightarrow> [] | Inr ds \<Rightarrow> ds)"

text \<open>Both tensors of a batch can be moved to the device.\<close>

definition moved :: "world \<Rightarrow> string \<Rightarrow> batch \<Rightarrow> bool" where
  "moved w device b =
     (to_raises w (source_ids b) device = None \<and> to_raises w (source_mask b) device = None)"

text \<open>
  The pass over batch \<open>k\<close> meets no error: the tensors are moved, the generation routine
  returns, every row is decoded, the file is opened and every line is written.
\<close>

definition pass_completes ::
  "world \<Rightarrow> t5 \<Rightarrow> tokenizer \<Rightarrow> string \<Rightarrow> nat \<Rightarrow> batch \<Rightarrow> bool" where
  "pass_completes w net tk device k b =
     (moved w device b \<and> \<not> generation_fails net b \<and>
      \<not> isl (decode_all tk (generated net b)) \<and>
      open_raises w k = None \<and>
      list_all (\<lambda>j. write_raises w k j = None) [0..<length (predictions net tk b)])"

text \<open>The passes over consecutive batches, the first of them numbered \<open>k\<close>, meet no error.\<close>

fun passes_complete ::
  "world \<Rightarrow> t5 \<Rightarrow> tokenizer \<Rightarrow> string \<Rightarrow> nat \<Rightarrow> batch list \<Rightarrow> bool" where
  "passes_complete w net tk device k [] = True"
| "passes_complete w net tk device k (b # bs) =
     (pass_completes w net tk device k b \<and> passes_complete w net tk device (Suc k) bs)"


text \<open>
  The input file cannot be read: the tokenizer is there, and building the dataset raises.
\<close>

definition input_unreadable :: "args \<Rightarrow> world \<Rightarrow> bool" where
  "input_unreadable a w =
     (case T5Tokenizer_from_pretrained w (model_name_or_path a) of
        Inl e \<Rightarrow> False
      | Inr tk \<Rightarrow> isl (MyDataset w tk (file_path a) (paradigm a) (task a) (max_seq_length a)))"

text \<open>
  The checkpoint is missing or corrupt: reading it raises, or it lacks one of the two
  entries, or the model cannot be built from its hyperparameters, or its weights do not
  fit the model.
\<close>

definition checkpoint_invalid :: "args \<Rightarrow> world \<Rightarrow> bool" where
  "checkpoint_invalid a w =
     (case torch_load w (ckpt a) of
        Inl e \<Rightarrow> True
      | Inr model_ckpt \<Rightarrow>
          (case model_ckpt ''hyper_parameters'' of
             None \<Rightarrow> True
           | Some hp \<Rightarrow>
               (case T5FineTuner_init w hp of
                  Inl e \<Rightarrow> True
                | Inr m0 \<Rightarrow>
                    (case model_ckpt ''state_dict'' of
                       None \<Rightarrow> True
                     | Some sd \<Rightarrow> isl (load_state_dict w m0 sd)))))"

subsection \<open>A concrete installation\<close>

text \<open>
  A small world to run the driver in: a tokenizer that spells id 0 as \<open>x\<close> and any other
  id as \<open>y\<close>, a network that echoes its input rows cut to the maximum length, an input of
  33 elements (so two batches), a checkpoint with both entries, a device and a file system
  that never fail.
\<close>

definition tok0 :: tokenizer where
  "tok0 = \<lparr>decode = (\<lambda>ids skip. Inr (concat (map (\<lambda>i. if i = 0 then ''x'' else ''y'') ids))),
           pad_token_id = 0\<rparr>"

definition net0 :: t5 where
  "net0 = \<lparr>generate = (\<lambda>ids amask max_length. Inr (map (take (nat max_length)) ids)),
           forward_call = (\<lambda>ids amask dec_ids dec_mask labels. Inr [1 / 2])\<rparr>"

text \<open>A network whose generation routine runs out of memory on the short last batch.\<close>

definition net1 :: t5 where
  "net1 = \<lparr>generate = (\<lambda>ids amask max_length.
              if length ids < 32 then Inl (RuntimeError ''CUDA out of memory'')
              else Inr (map (take (nat max_length)) ids)),
           forward_call = (\<lambda>ids amask dec_ids dec_mask labels. Inr [1 / 2])\<rparr>"

definition items0 :: "item list" where
  "items0 = replicate 32 \<lparr>item_source_ids = [0], item_source_mask = [1]\<rparr>
            @ [\<lparr>item_source_ids = [7], item_source_mask = [1]\<rparr>]"

definition world_with :: "t5 \<Rightarrow> world" where
  "world_with net =
     \<lparr>T5Tokenizer_from_pretrained = (\<lambda>name. Inr tok0),
      MyDataset = (\<lambda>tk path par tsk max_len.
         if path = ''missing.txt'' then Inl (OSError ''missing.txt'') else Inr items0),
      torch_load = (\<lambda>path.
         if path = ''missing.ckpt'' then Inl (OSError ''missing.ckpt'')
         else Inr [''hyper_parameters'' \<mapsto> Blob ''hp'', ''state_dict'' \<mapsto> Blob ''sd'']),
      T5FineTuner_init = (\<lambda>hp. Inr \<lparr>model = net, ft_tokenizer = tok0\<rparr>),
      load_state_dict = (\<lambda>m sd. Inr m),
      to_device = (\<lambda>n dev. Inr n),
      to_raises = (\<lambda>t dev. None),
      open_raises = (\<lambda>k. None),
      write_raises = (\<lambda>k j. None)\<rparr>"

definition args0 :: args where
  "args0 = \<lparr>task = ''uabsa'', file_path = ''input.txt'', model_name_or_path = ''t5-base'',
            paradigm = ''annotation'', do_train = False, do_eval = False,
            do_direct_eval = False, max_seq_length = 64, n_gpu = ''0'',
            train_batch_size = 16, eval_batch_size = 16, gradient_accumulation_steps = 1,
            num_train_epochs = 20, seed = 42, ckpt = ''model.ckpt''\<rparr>"

text \<open>
  Three other installations. In the first the input has two elements and the generation
  routine returns every row twice. In the second the input has one element and the
  tokenizer spells its id with a newline inside. In the third the two elements of the
  input have rows of different lengths.
\<close>

definition net2 :: t5 where
  "net2 = \<lparr>generate = (\<lambda>ids amask max_length. Inr (concat (map (\<lambda>r. [r, r]) ids))),
           forward_call = (\<lambda>ids amask dec_ids dec_mask labels. Inr [1 / 2])\<rparr>"

definition world_twice :: world where
  "world_twice = (world_with net2)
     \<lparr>MyDataset := (\<lambda>tk path par tsk max_len.
         Inr [\<lparr>item_source_ids = [0], item_source_mask = [1]\<rparr>,
              \<lparr>item_source_ids = [7], item_source_mask = [1]\<rparr>])\<rparr>"

definition tok_nl :: tokenizer where
  "tok_nl = \<lparr>decode = (\<lambda>ids skip.
               Inr (concat (map (\<lambda>i. if i = 0 then ''x'' else [CHR ''a'', newline, CHR ''b'']) ids))),
             pad_token_id = 0\<rparr>"

definition world_newline :: world where
  "world_newline = (world_with net0)
     \<lparr>T5Tokenizer_from_pretrained := (\<lambda>name. Inr tok_nl),
      MyDataset := (\<lambda>tk path par tsk max_len.
         Inr [\<lparr>item_source_ids = [7], item_source_mask = [1]\<rparr>])\<rparr>"

definition world_ragged :: world where
  "world_ragged = (world_with net0)
     \<lparr>MyDataset := (\<lambda>tk path par tsk max_len.
         Inr [\<lparr>item_source_ids = [0, 0], item_source_mask = [1, 1]\<rparr>,
              \<lparr>item_source_ids = [7], item_source_mask = [1]\<rparr>])\<rparr>"

text \<open>A fourth one, whose disk is full when the second batch is written.\<close>

definition world_disk_full :: world where
  "world_disk_full = (world_with net0)
     \<lparr>write_raises := (\<lambda>k j. if k = 1 then Some (OSError ''No space left on device'') else None)\<rparr>"

section \<open>The training step \<^verbatim>\<open>T5FineTuner._step\<close> (lines 156--168)\<close>

text \<open>
  The step changes a tensor in place, and the batch is a dictionary of references to
  tensors, so tensors live in a store and the batch maps its keys to addresses.
  \<^verbatim>\<open>lm_labels\<close> is the very tensor stored under \<^verbatim>\<open>target_ids\<close>.
\<close>

type_synonym addr = nat
type_synonym store = "addr \<Rightarrow> tensor"
type_synonym batch_dict = "string \<rightharpoonup> addr"

text \<open>
  \<^verbatim>\<open>lm_labels[lm_labels[:, :] == pad] = -100\<close>: every entry equal to \<open>pad\<close> is
  overwritten, the others stay.
\<close>

definition masked_fill :: "int \<Rightarrow> int \<Rightarrow> tensor \<Rightarrow> tensor" where
  "masked_fill pad v t = map (map (\<lambda>x. if x = pad then v else x)) t"

text \<open>\<^verbatim>\<open>forward\<close> (lines 140--154) hands its arguments to the network.\<close>

definition forward ::
  "fine_tuner \<Rightarrow> tensor \<Rightarrow> tensor option \<Rightarrow> tensor option \<Rightarrow> tensor option
     \<Rightarrow> tensor option \<Rightarrow> error + rat list" where
  "forward self input_ids attention_mask decoder_input_ids decoder_attention_mask labels =
     forward_call (model self) input_ids attention_mask decoder_input_ids
       decoder_attention_mask labels"

text \<open>
  Lines 160--168: the forward call on the tensors of the batch, and its first output. The
  keys are looked up in the order in which the call names them; nothing is written.
\<close>

definition step_loss :: "fine_tuner \<Rightarrow> batch_dict \<Rightarrow> store \<Rightarrow> addr \<Rightarrow> error + rat" where
  "step_loss self batch h lm_labels =
     (case batch ''source_ids'' of
        None \<Rightarrow> Inl (KeyError ''source_ids'')
      | Some src \<Rightarrow>
     (case batch ''source_mask'' of
        None \<Rightarrow> Inl (KeyError ''source_mask'')
      | Some src_mask \<Rightarrow>
     (case batch ''target_mask'' of
        None \<Rightarrow> Inl (KeyError ''target_mask'')
      | Some tgt_mask \<Rightarrow>
     (case forward self (h src) (Some (h src_mask)) None (Some (h tgt_mask))
             (Some (h lm_labels)) of
        Inl e \<Rightarrow> Inl e
      | Inr outputs \<Rightarrow>
          (case outputs of
             [] \<Rightarrow> Inl IndexError
           | loss # rest \<Rightarrow> Inr loss)))))"

text \<open>
  \<^verbatim>\<open>_step\<close>: line 157 takes the reference stored under \<^verbatim>\<open>target_ids\<close>, line 158
  overwrites the pad entries of that tensor, and the rest works on the store so changed.
\<close>

definition step :: "fine_tuner \<Rightarrow> batch_dict \<Rightarrow> store \<Rightarrow> (error + rat) \<times> store" where
  "step self batch h =
     (case batch ''target_ids'' of
        None \<Rightarrow> (Inl (KeyError ''target_ids''), h)
      | Some lm_labels \<Rightarrow>
          (let h1 = h(lm_labels :=
                 masked_fill (pad_token_id (ft_tokenizer self)) (- 100) (h lm_labels))
           in (step_loss self batch h1 lm_labels, h1)))"

text \<open>A batch of two examples in a store, with the pad id 0 of \<open>tok0\<close> in its targets.\<close>

definition batch0 :: batch_dict where
  "batch0 = [''source_ids'' \<mapsto> 0, ''source_mask'' \<mapsto> 1, ''target_ids'' \<mapsto> 2,
             ''target_mask'' \<mapsto> 3]"

definition store0 :: store where
  "store0 = (\<lambda>a. [])(0 := [ [5, 6, 0], [7, 0, 0] ], 1 := [ [1, 1, 0], [1, 0, 0] ],
                       2 := [ [8, 9, 0], [4, 0, 0] ], 3 := [ [1, 1, 0], [1, 0, 0] ])"

section \<open>The scorer\<close>

text \<open>
  Modelled from the spec: \<^verbatim>\<open>compute_scores\<close> of \<^verbatim>\<open>eval_utils\<close>, which the driver
  imports and which is not among the sources. The definitions follow section 4.3 of the
  specification: the input is a list of pairs (gold tuple set, predicted tuple set), one per
  example; the true positives of an example are the tuples in both sets; the counts are
  summed over the examples; a quotient with denominator 0 is 0. The metrics are exact
  rationals here.
\<close>

type_synonym 'a scored_pair = "'a fset \<times> 'a fset"

definition true_positives :: "'a scored_pair list \<Rightarrow> nat" where
  "true_positives ps = sum_list (map (\<lambda>(gold, pred). fcard (gold |\<inter>| pred)) ps)"

definition gold_count :: "'a scored_pair list \<Rightarrow> nat" where
  "gold_count ps = sum_list (map (\<lambda>(gold, pred). fcard gold) ps)"

definition predicted_count :: "'a scored_pair list \<Rightarrow> nat" where
  "predicted_count ps = sum_list (map (\<lambda>(gold, pred). fcard pred) ps)"

definition precision :: "'a scored_pair list \<Rightarrow> rat" where
  "precision ps =
     (if predicted_count ps = 0 then 0
      else of_nat (true_positives ps) / of_nat (predicted_count ps))"

definition recall :: "'a scored_pair list \<Rightarrow> rat" where
  "recall ps =
     (if gold_count ps = 0 then 0
      else of_nat (true_positives ps) / of_nat (gold_count ps))"

definition f1 :: "'a scored_pair list \<Rightarrow> rat" where
  "f1 ps =
     (if precision ps = 0 \<and> recall ps = 0 then 0
      else 2 * precision ps * recall ps / (precision ps + recall ps))"

section \<open>Facts about the driver\<close>

lemma trace_emit [simp]: "trace (emit e st) = trace st @ [e]"
  by (simp add: emit_def)

lemma results_file_emit [simp]: "results_file (emit e st) = results_file st"
  by (simp add: emit_def)

subsection \<open>Writing the results file\<close>

lemma write_all_extends: "prefix c (snd (write_all w k j ds c))"
proof (induction ds arbitrary: j c)
  case Nil
  then show ?case by simp
next
  case (Cons d ds)
  show ?case
  proof (cases "write_raises w k j")
    case None
    have "prefix c (c @ d @ [newline])" by simp
    also have "prefix (c @ d @ [newline]) (snd (write_all w k (Suc j) ds (c @ d @ [newline])))"
      by (rule Cons.IH)
    finally show ?thesis using None by simp
  next
    case (Some e)
    then show ?thesis by simp
  qed
qed

lemma write_all_ok:
  "\<forall>i<length ds. write_raises w k (j + i) = None \<Longrightarrow>
     write_all w k j ds c = (None, c @ concat (map (\<lambda>d. d @ [newline]) ds))"
proof (induction ds arbitrary: j c)
  case Nil
  then show ?case by simp
next
  case (Cons d ds)
  from Cons.prems have head: "write_raises w k j = None"
    by (auto dest: spec [of _ 0])
  have "write_raises w k (Suc j + i) = None" if "i < length ds" for i
    using Cons.prems that by (auto dest: spec [of _ "Suc i"])
  then have "write_all w k (Suc j) ds (c @ d @ [newline]) =
      (None, (c @ d @ [newline]) @ concat (map (\<lambda>d. d @ [newline]) ds))"
    by (intro Cons.IH) simp
  with head show ?case by simp
qed

lemma write_all_None:
  "fst (write_all w k j ds c) = None \<Longrightarrow> i < length ds \<Longrightarrow> write_raises w k (j + i) = None"
proof (induction ds arbitrary: j c i)
  case Nil
  then show ?case by simp
next
  case (Cons d ds)
  from Cons.prems(1) have head: "write_raises w k j = None"
    by (cases "write_raises w k j") simp_all
  show ?case
  proof (cases i)
    case 0
    with head show ?thesis by simp
  next
    case (Suc i')
    from Cons.prems(1) head have "fst (write_all w k (Suc j) ds (c @ d @ [newline])) = None"
      by simp
    from Cons.IH [OF this, of i'] Cons.prems(2) Suc show ?thesis by simp
  qed
qed

lemma append_results_eq:
  "append_results w k dec st =
     (case open_raises w k of
        Some e \<Rightarrow> (Some e, st)
      | None \<Rightarrow>
          (fst (write_all w k 0 dec (open_append (results_file st))),
           st\<lparr>results_file := Some (snd (write_all w k 0 dec (open_append (results_file st))))\<rparr>))"
  by (simp add: append_results_def split: option.splits prod.splits)

lemma trace_append_results [simp]: "trace (snd (append_results w k dec st)) = trace st"
  by (simp add: append_results_eq split: option.splits)

lemma append_results_extends:
  "prefix (open_append (results_file st))
     (open_append (results_file (snd (append_results w k dec st))))"
  using write_all_extends [of "open_append (results_file st)" w k 0 dec]
  by (simp add: append_results_eq open_append_def split: option.splits)

lemma append_results_keeps_file:
  "results_file st \<noteq> None \<Longrightarrow> results_file (snd (append_results w k dec st)) \<noteq> None"
  by (simp add: append_results_eq split: option.splits)

lemma append_results_ok:
  assumes "open_raises w k = None"
    and "list_all (\<lambda>j. write_raises w k j = None) [0..<length dec]"
  shows "append_results w k dec st =
     (None, st\<lparr>results_file :=
              Some (open_append (results_file st) @ concat (map (\<lambda>d. d @ [newline]) dec))\<rparr>)"
proof -
  from assms(2) have "\<forall>i<length dec. write_raises w k (0 + i) = None"
    by (simp add: list_all_iff)
  from write_all_ok [OF this] assms(1) show ?thesis
    by (simp add: append_results_def)
qed

lemma append_results_None:
  assumes "fst (append_results w k dec st) = None"
  shows "open_raises w k = None \<and> list_all (\<lambda>j. write_raises w k j = None) [0..<length dec]"
proof -
  from assms have o: "open_raises w k = None"
    by (cases "open_raises w k") (simp_all add: append_results_def)
  with assms have "fst (write_all w k 0 dec (open_append (results_file st))) = None"
    by (simp add: append_results_eq)
  from write_all_None [OF this] have "\<forall>i<length dec. write_raises w k i = None"
    by simp
  with o show ?thesis by (simp add: list_all_iff)
qed

lemma write_all_fst: "fst (write_all w k j ds c) = fst (write_all w k j ds c')"
  by (induction ds arbitrary: j c c') (auto split: option.splits)

lemma append_results_fst:
  "fst (append_results w k dec st) = fst (append_results w k dec st')"
proof (cases "open_raises w k")
  case (Some e)
  then show ?thesis by (simp add: append_results_eq)
next
  case None
  from write_all_fst [of w k 0 dec "open_append (results_file st)" "open_append (results_file st')"]
    None
  show ?thesis by (simp add: append_results_eq)
qed

subsection \<open>One pass of the loop\<close>

lemma decode_all_Inr:
  "decode_all tk outs = Inr ds \<Longrightarrow>
     length ds = length outs \<and> (\<forall>j<length outs. decode tk (outs ! j) True = Inr (ds ! j))"
proof (induction outs arbitrary: ds)
  case Nil
  then show ?case by simp
next
  case (Cons ids outs)
  from Cons.prems obtain d ds' where
    d: "decode tk ids True = Inr d" and ds': "decode_all tk outs = Inr ds'" and ds: "ds = d # ds'"
    by (auto split: sum.splits)
  from Cons.IH [OF ds'] d ds show ?case
    by (auto simp: nth_Cons split: nat.splits)
qed

lemma process_batch_not_moved:
  assumes "\<not> moved w device b"
  shows "fst (process_batch w net tk device k b st) \<noteq> None"
    and "snd (process_batch w net tk device k b st) = emit (ENCODE k (length (source_ids b))) st"
  using assms
  by (auto simp: process_batch_def moved_def tensor_to_def Let_def split: option.splits)

lemma process_batch_generate_fails:
  assumes "moved w device b"
    and "generate net (source_ids b) (source_mask b) 128 = Inl e"
  shows "process_batch w net tk device k b st =
     (Some e, st\<lparr>trace := trace st @ [ENCODE k (length (source_ids b)), GENERATE k 128]\<rparr>)"
  using assms
  by (simp add: process_batch_def moved_def tensor_to_def call_generate_def emit_def Let_def)

lemma process_batch_decode_fails:
  assumes "moved w device b"
    and "generate net (source_ids b) (source_mask b) 128 = Inr outs"
    and "decode_all tk outs = Inl e"
  shows "process_batch w net tk device k b st =
     (Some e, st\<lparr>trace := trace st @
                [ENCODE k (length (source_ids b)), GENERATE k 128, DECODE k]\<rparr>)"
  using assms
  by (simp add: process_batch_def moved_def tensor_to_def call_generate_def emit_def Let_def)

lemma process_batch_written:
  assumes "moved w device b"
    and "generate net (source_ids b) (source_mask b) 128 = Inr outs"
    and "decode_all tk outs = Inr dec"
  shows "process_batch w net tk device k b st =
     append_results w k dec (st\<lparr>trace := trace st @ batch_events k b\<rparr>)"
  using assms
  by (simp add: process_batch_def moved_def tensor_to_def call_generate_def emit_def Let_def
      batch_events_def)

text \<open>The ways a pass can go.\<close>

lemma process_batch_cases:
  obtains (not_moved) "\<not> moved w device b"
  | (generate_fails) e where "moved w device b"
      and "generate net (source_ids b) (source_mask b) 128 = Inl e"
  | (decode_fails) outs e where "moved w device b"
      and "generate net (source_ids b) (source_mask b) 128 = Inr outs"
      and "decode_all tk outs = Inl e"
  | (written) outs dec where "moved w device b"
      and "generate net (source_ids b) (source_mask b) 128 = Inr outs"
      and "decode_all tk outs = Inr dec"
proof (cases "moved w device b")
  case False
  then show ?thesis by (rule not_moved)
next
  case True
  show ?thesis
  proof (cases "generate net (source_ids b) (source_mask b) 128")
    case (Inl e)
    with True show ?thesis by (rule generate_fails)
  next
    case (Inr outs)
    show ?thesis
    proof (cases "decode_all tk outs")
      case (Inl e)
      with True Inr show ?thesis by (rule decode_fails)
    next
      case (Inr dec)
      with True \<open>generate net (source_ids b) (source_mask b) 128 = Inr outs\<close>
      show ?thesis by (rule written)
    qed
  qed
qed

lemma process_batch_complete:
  assumes "pass_completes w net tk device k b"
  shows "process_batch w net tk device k b st =
     (None,
      st\<lparr>trace := trace st @ batch_events k b,
         results_file :=
           Some (open_append (results_file st) @
                 concat (map (\<lambda>d. d @ [newline]) (predictions net tk b)))\<rparr>)"
proof -
  from assms obtain outs where
    outs: "generate net (source_ids b) (source_mask b) 128 = Inr outs"
    by (cases "generate net (source_ids b) (source_mask b) 128")
       (auto simp: pass_completes_def generation_fails_def)
  then have g: "generated net b = outs" by (simp add: generated_def)
  from assms g obtain dec where dec: "decode_all tk outs = Inr dec"
    by (cases "decode_all tk outs") (auto simp: pass_completes_def)
  with g have p: "predictions net tk b = dec" by (simp add: predictions_def)
  from assms have m: "moved w device b" and o: "open_raises w k = None"
    and wr: "list_all (\<lambda>j. write_raises w k j = None) [0..<length dec]"
    by (simp_all add: pass_completes_def p)
  show ?thesis
    unfolding process_batch_written [OF m outs dec] append_results_ok [OF o wr] p
    by simp
qed

lemma process_batch_None:
  assumes "fst (process_batch w net tk device k b st) = None"
  shows "pass_completes w net tk device k b"
proof (cases rule: process_batch_cases
    [where w = w and device = device and b = b and net = net and tk = tk])
  case not_moved
  from process_batch_not_moved(1) [OF this] assms show ?thesis by blast
next
  case (generate_fails e)
  from assms show ?thesis
    unfolding process_batch_generate_fails [OF generate_fails] by simp
next
  case (decode_fails outs e)
  from assms show ?thesis
    unfolding process_batch_decode_fails [OF decode_fails] by simp
next
  case (written outs dec)
  from assms have "fst (append_results w k dec (st\<lparr>trace := trace st @ batch_events k b\<rparr>)) = None"
    unfolding process_batch_written [OF written] .
  from append_results_None [OF this] written show ?thesis
    by (simp add: pass_completes_def generation_fails_def generated_def predictions_def)
qed

lemma trace_stepI:
  assumes "prefix evs full" and "tr' = tr @ evs" and "r = None \<Longrightarrow> evs = full"
  shows "\<exists>evs. prefix evs full \<and> tr' = tr @ evs \<and> (r = None \<longrightarrow> evs = full)"
  using assms by (intro exI [of _ evs]) simp

lemma process_batch_trace:
  "\<exists>evs. prefix evs (batch_events k b) \<and>
         trace (snd (process_batch w net tk device k b st)) = trace st @ evs \<and>
         (fst (process_batch w net tk device k b st) = None \<longrightarrow> evs = batch_events k b)"
proof (cases rule: process_batch_cases
    [where w = w and device = device and b = b and net = net and tk = tk])
  case not_moved
  show ?thesis
  proof (rule trace_stepI)
    show "prefix [ENCODE k (length (source_ids b))] (batch_events k b)"
      by (simp add: batch_events_def)
    show "trace (snd (process_batch w net tk device k b st)) =
        trace st @ [ENCODE k (length (source_ids b))]"
      by (simp add: process_batch_not_moved(2) [OF not_moved])
    show "[ENCODE k (length (source_ids b))] = batch_events k b"
      if "fst (process_batch w net tk device k b st) = None"
      using that process_batch_not_moved(1) [OF not_moved, of net tk k st] by simp
  qed
next
  case (generate_fails e)
  show ?thesis
  proof (rule trace_stepI)
    show "prefix [ENCODE k (length (source_ids b)), GENERATE k 128] (batch_events k b)"
      by (simp add: batch_events_def)
    show "trace (snd (process_batch w net tk device k b st)) =
        trace st @ [ENCODE k (length (source_ids b)), GENERATE k 128]"
      by (simp add: process_batch_generate_fails [OF generate_fails])
    show "[ENCODE k (length (source_ids b)), GENERATE k 128] = batch_events k b"
      if "fst (process_batch w net tk device k b st) = None"
      using that by (simp add: process_batch_generate_fails [OF generate_fails])
  qed
next
  case (decode_fails outs e)
  show ?thesis
  proof (rule trace_stepI)
    show "prefix [ENCODE k (length (source_ids b)), GENERATE k 128, DECODE k] (batch_events k b)"
      by (simp add: batch_events_def)
    show "trace (snd (process_batch w net tk device k b st)) =
        trace st @ [ENCODE k (length (source_ids b)), GENERATE k 128, DECODE k]"
      by (simp add: process_batch_decode_fails [OF decode_fails])
    show "[ENCODE k (length (source_ids b)), GENERATE k 128, DECODE k] = batch_events k b"
      if "fst (process_batch w net tk device k b st) = None"
      using that by (simp add: process_batch_decode_fails [OF decode_fails])
  qed
next
  case (written outs dec)
  show ?thesis
  proof (rule trace_stepI)
    show "prefix (batch_events k b) (batch_events k b)" by simp
    show "trace (snd (process_batch w net tk device k b st)) = trace st @ batch_events k b"
      by (simp add: process_batch_written [OF written])
    show "batch_events k b = batch_events k b" by simp
  qed
qed

lemma process_batch_file:
  "prefix (open_append (results_file st))
     (open_append (results_file (snd (process_batch w net tk device k b st))))"
proof (cases rule: process_batch_cases
    [where w = w and device = device and b = b and net = net and tk = tk])
  case not_moved
  show ?thesis by (simp add: process_batch_not_moved(2) [OF not_moved])
next
  case (generate_fails e)
  show ?thesis by (simp add: process_batch_generate_fails [OF generate_fails])
next
  case (decode_fails outs e)
  show ?thesis by (simp add: process_batch_decode_fails [OF decode_fails])
next
  case (written outs dec)
  from append_results_extends [of "st\<lparr>trace := trace st @ batch_events k b\<rparr>" w k dec]
  show ?thesis
    unfolding process_batch_written [OF written] by simp
qed

lemma process_batch_keeps_file:
  assumes "results_file st \<noteq> None"
  shows "results_file (snd (process_batch w net tk device k b st)) \<noteq> None"
proof (cases rule: process_batch_cases
    [where w = w and device = device and b = b and net = net and tk = tk])
  case not_moved
  with assms show ?thesis by (simp add: process_batch_not_moved(2) [OF not_moved])
next
  case (generate_fails e)
  with assms show ?thesis by (simp add: process_batch_generate_fails [OF generate_fails])
next
  case (decode_fails outs e)
  with assms show ?thesis by (simp add: process_batch_decode_fails [OF decode_fails])
next
  case (written outs dec)
  from assms have "results_file (st\<lparr>trace := trace st @ batch_events k b\<rparr>) \<noteq> None" by simp
  from append_results_keeps_file [OF this, of w k dec] show ?thesis
    unfolding process_batch_written [OF written] .
qed

lemma process_batch_same_trace:
  assumes "trace st = trace st'"
  shows "fst (process_batch w net tk device k b st) =
           fst (process_batch w net tk device k b st') \<and>
         trace (snd (process_batch w net tk device k b st)) =
           trace (snd (process_batch w net tk device k b st'))"
proof (cases rule: process_batch_cases
    [where w = w and device = device and b = b and net = net and tk = tk])
  case not_moved
  have "fst (process_batch w net tk device k b st) =
      fst (process_batch w net tk device k b st')"
    using not_moved
    by (auto simp: process_batch_def moved_def tensor_to_def Let_def split: option.splits)
  with assms show ?thesis
    by (simp add: process_batch_not_moved(2) [OF not_moved])
next
  case (generate_fails e)
  from assms show ?thesis by (simp add: process_batch_generate_fails [OF generate_fails])
next
  case (decode_fails outs e)
  from assms show ?thesis by (simp add: process_batch_decode_fails [OF decode_fails])
next
  case (written outs dec)
  have "fst (append_results w k dec (st\<lparr>trace := trace st @ batch_events k b\<rparr>)) =
      fst (append_results w k dec (st'\<lparr>trace := trace st' @ batch_events k b\<rparr>))"
    by (rule append_results_fst)
  with assms show ?thesis
    unfolding process_batch_written [OF written] by simp
qed

subsection \<open>Start-up\<close>

lemma startup_results_file: "results_file (snd (startup a w st)) = results_file st"
  by (simp add: startup_def Let_def split: sum.splits option.splits)

lemma startup_trace:
  "\<exists>evs. prefix evs [LOAD_TOKENIZER, LOAD_INPUT, LOAD_CHECKPOINT] \<and>
         trace (snd (startup a w st)) = trace st @ evs"
proof (cases "T5Tokenizer_from_pretrained w (model_name_or_path a)")
  case (Inl e)
  then have "trace (snd (startup a w st)) = trace st @ [LOAD_TOKENIZER]"
    by (simp add: startup_def)
  then show ?thesis by (intro exI [of _ "[LOAD_TOKENIZER]"]) simp
next
  case tk: (Inr tk)
  show ?thesis
  proof (cases "MyDataset w tk (file_path a) (paradigm a) (task a) (max_seq_length a)")
    case (Inl e)
    with tk have "trace (snd (startup a w st)) = trace st @ [LOAD_TOKENIZER, LOAD_INPUT]"
      by (simp add: startup_def)
    then show ?thesis by (intro exI [of _ "[LOAD_TOKENIZER, LOAD_INPUT]"]) simp
  next
    case (Inr input_data)
    with tk have "trace (snd (startup a w st)) =
        trace st @ [LOAD_TOKENIZER, LOAD_INPUT, LOAD_CHECKPOINT]"
      by (simp add: startup_def Let_def split: sum.splits option.splits)
    then show ?thesis
      by (intro exI [of _ "[LOAD_TOKENIZER, LOAD_INPUT, LOAD_CHECKPOINT]"]) simp
  qed
qed

lemma startup_Inr:
  assumes "startup a w st = (Inr (tk, dl, m), st')"
  shows "st' = st\<lparr>trace := trace st @ [LOAD_TOKENIZER, LOAD_INPUT, LOAD_CHECKPOINT]\<rparr>"
    and "T5Tokenizer_from_pretrained w (model_name_or_path a) = Inr tk"
    and "MyDataset w tk (file_path a) (paradigm a) (task a) (max_seq_length a) = Inr (dataset dl)"
    and "dl = DataLoader (dataset dl) 32 4"
  using assms
  by (auto simp: startup_def Let_def emit_def DataLoader_def split: sum.splits option.splits)

lemma startup_Inl:
  assumes "input_unreadable a w \<or> checkpoint_invalid a w"
  shows "isl (fst (startup a w st))"
  using assms
  by (auto simp: startup_def Let_def input_unreadable_def checkpoint_invalid_def
      split: sum.splits option.splits)

lemma startup_other_file:
  "startup a w (st\<lparr>results_file := f\<rparr>) =
     (fst (startup a w st), (snd (startup a w st))\<lparr>results_file := f\<rparr>)"
  by (simp add: startup_def Let_def emit_def split: sum.splits option.splits)

lemma startup_ignores_eval_batch_size:
  "startup (a\<lparr>eval_batch_size := n\<rparr>) w st = startup a w st"
  by (simp add: startup_def device_of_def Let_def cong: sum.case_cong option.case_cong)

subsection \<open>The loop\<close>

lemma loop_Cons_continues:
  assumes "fst (process_batch w net tk device k b st) = None"
  shows "inference_loop w net tk device (b # bs) k st =
     inference_loop w net tk device bs (Suc k) (snd (process_batch w net tk device k b st))"
  using assms by (cases "process_batch w net tk device k b st") simp

lemma loop_Cons_stops:
  assumes "fst (process_batch w net tk device k b st) \<noteq> None"
  shows "inference_loop w net tk device (b # bs) k st = process_batch w net tk device k b st"
  using assms by (cases "process_batch w net tk device k b st") auto

declare inference_loop.simps(2) [simp del]

lemma passes_append: "passes k (xs @ ys) = passes k xs @ passes (k + length xs) ys"
  by (induction xs arbitrary: k) simp_all

lemma passes_eq:
  "passes k bs = concat (map (\<lambda>i. batch_events (k + i) (bs ! i)) [0..<length bs])"
proof (induction bs arbitrary: k)
  case Nil
  then show ?case by simp
next
  case (Cons b bs)
  have "[0..<length (b # bs)] = 0 # map Suc [0..<length bs]"
    by (simp add: upt_conv_Cons map_Suc_upt del: upt_Suc)
  then show ?case
    by (simp add: Cons.IH [of "Suc k"] comp_def)
qed

lemma passes_index:
  "ev \<in> set (passes k bs) \<Longrightarrow> \<exists>j. batch_index ev = Some j \<and> k \<le> j \<and> j < k + length bs"
proof (induction bs arbitrary: k)
  case Nil
  then show ?case by simp
next
  case (Cons b bs)
  from Cons.prems consider "ev \<in> set (batch_events k b)" | "ev \<in> set (passes (Suc k) bs)"
    by auto
  then show ?case
  proof cases
    case 1
    then show ?thesis by (auto simp: batch_events_def)
  next
    case 2
    from Cons.IH [OF 2] show ?thesis by auto
  qed
qed

lemma passes_generate: "GENERATE j ml \<in> set (passes k bs) \<Longrightarrow> ml = 128"
  by (induction bs arbitrary: k) (auto simp: batch_events_def)

lemma distinct_passes: "distinct (passes k bs)"
proof (induction bs arbitrary: k)
  case Nil
  then show ?case by simp
next
  case (Cons b bs)
  have "ev \<notin> set (passes (Suc k) bs)" if "ev \<in> set (batch_events k b)" for ev
  proof
    assume "ev \<in> set (passes (Suc k) bs)"
    from passes_index [OF this] obtain j where "batch_index ev = Some j" "Suc k \<le> j"
      by blast
    with that show False by (auto simp: batch_events_def)
  qed
  moreover have "distinct (batch_events k b)"
    by (simp add: batch_events_def)
  ultimately show ?case
    using Cons.IH [of "Suc k"] by auto
qed

lemma loop_ok:
  assumes "passes_complete w net tk device k bs"
  shows "inference_loop w net tk device bs k st =
     (None, st\<lparr>trace := trace st @ passes k bs,
              results_file :=
                (if bs = [] then results_file st
                 else Some (open_append (results_file st) @
                       concat (map (\<lambda>d. d @ [newline]) (concat (map (predictions net tk) bs)))))\<rparr>)"
  using assms
proof (induction bs arbitrary: k st)
  case Nil
  then show ?case by simp
next
  case (Cons b bs)
  from Cons.prems have b: "pass_completes w net tk device k b"
    and rest: "passes_complete w net tk device (Suc k) bs"
    by simp_all
  note step = process_batch_complete [OF b, of st]
  have "inference_loop w net tk device (b # bs) k st =
      inference_loop w net tk device bs (Suc k) (snd (process_batch w net tk device k b st))"
    by (rule loop_Cons_continues) (simp add: step)
  then show ?case
    unfolding step snd_conv Cons.IH [OF rest] by (simp add: open_append_def)
qed

lemma loop_None:
  assumes "fst (inference_loop w net tk device bs k st) = None"
  shows "passes_complete w net tk device k bs"
  using assms
proof (induction bs arbitrary: k st)
  case Nil
  then show ?case by simp
next
  case (Cons b bs)
  show ?case
  proof (cases "fst (process_batch w net tk device k b st) = None")
    case True
    from Cons.prems have "fst (inference_loop w net tk device bs (Suc k)
        (snd (process_batch w net tk device k b st))) = None"
      unfolding loop_Cons_continues [OF True] .
    from Cons.IH [OF this] process_batch_None [OF True] show ?thesis by simp
  next
    case False
    with Cons.prems show ?thesis
      unfolding loop_Cons_stops [OF False] by simp
  qed
qed

lemma loop_append:
  assumes "passes_complete w net tk device k pre"
  shows "inference_loop w net tk device (pre @ rest) k st =
     inference_loop w net tk device rest (k + length pre)
       (snd (inference_loop w net tk device pre k st))"
  using assms
proof (induction pre arbitrary: k st)
  case Nil
  then show ?case by simp
next
  case (Cons b pre)
  from Cons.prems have b: "pass_completes w net tk device k b"
    and rest: "passes_complete w net tk device (Suc k) pre"
    by simp_all
  have n: "fst (process_batch w net tk device k b st) = None"
    by (simp add: process_batch_complete [OF b])
  show ?case
    using Cons.IH [OF rest, of "snd (process_batch w net tk device k b st)"]
    by (simp only: append_Cons loop_Cons_continues [OF n]) simp
qed

lemma loop_generate_fails:
  assumes "passes_complete w net tk device k pre"
    and "moved w device b"
    and "generate net (source_ids b) (source_mask b) 128 = Inl e"
  shows "inference_loop w net tk device (pre @ b # post) k st =
     (Some e,
      st\<lparr>trace := trace st @ passes k pre @
              [ENCODE (k + length pre) (length (source_ids b)), GENERATE (k + length pre) 128],
         results_file :=
           (if pre = [] then results_file st
            else Some (open_append (results_file st) @
                  concat (map (\<lambda>d. d @ [newline]) (concat (map (predictions net tk) pre)))))\<rparr>)"
proof -
  have "inference_loop w net tk device (b # post) k' st' =
      (Some e, st'\<lparr>trace := trace st' @
          [ENCODE k' (length (source_ids b)), GENERATE k' 128]\<rparr>)" for k' st'
    using loop_Cons_stops [of w net tk device k' b st' post]
    by (simp add: process_batch_generate_fails [OF assms(2,3)])
  then show ?thesis
    unfolding loop_append [OF assms(1)] loop_ok [OF assms(1)] snd_conv by simp
qed

lemma loop_trace:
  "\<exists>evs. prefix evs (passes k bs) \<and>
         trace (snd (inference_loop w net tk device bs k st)) = trace st @ evs \<and>
         (fst (inference_loop w net tk device bs k st) = None \<longrightarrow> evs = passes k bs)"
proof (induction bs arbitrary: k st)
  case Nil
  show ?case by simp
next
  case (Cons b bs)
  from process_batch_trace [of k b w net tk device st] obtain evs where
    evs0: "prefix evs (batch_events k b) \<and>
      trace (snd (process_batch w net tk device k b st)) = trace st @ evs \<and>
      (fst (process_batch w net tk device k b st) = None \<longrightarrow> evs = batch_events k b)" ..
  note evs = conjunct1 [OF evs0] conjunct1 [OF conjunct2 [OF evs0] ]
    conjunct2 [OF conjunct2 [OF evs0] ]
  show ?case
  proof (cases "fst (process_batch w net tk device k b st) = None")
    case False
    show ?thesis
    proof (rule trace_stepI)
      show "prefix evs (passes k (b # bs))"
        unfolding passes.simps using evs(1) by (rule prefix_prefix)
      show "trace (snd (inference_loop w net tk device (b # bs) k st)) = trace st @ evs"
        unfolding loop_Cons_stops [OF False] by (rule evs(2))
      show "evs = passes k (b # bs)"
        if "fst (inference_loop w net tk device (b # bs) k st) = None"
        using that False unfolding loop_Cons_stops [OF False] by simp
    qed
  next
    case True
    define st1 where "st1 = snd (process_batch w net tk device k b st)"
    from evs(3) True have "evs = batch_events k b" by simp
    with evs(2) have tr1: "trace st1 = trace st @ batch_events k b"
      by (simp add: st1_def)
    from Cons.IH [of "Suc k" st1] obtain evs' where
      evs0': "prefix evs' (passes (Suc k) bs) \<and>
        trace (snd (inference_loop w net tk device bs (Suc k) st1)) = trace st1 @ evs' \<and>
        (fst (inference_loop w net tk device bs (Suc k) st1) = None \<longrightarrow>
           evs' = passes (Suc k) bs)" ..
    note evs' = conjunct1 [OF evs0'] conjunct1 [OF conjunct2 [OF evs0'] ]
      conjunct2 [OF conjunct2 [OF evs0'] ]
    have step: "inference_loop w net tk device (b # bs) k st =
        inference_loop w net tk device bs (Suc k) st1"
      unfolding st1_def by (rule loop_Cons_continues [OF True])
    show ?thesis
    proof (rule trace_stepI)
      show "prefix (batch_events k b @ evs') (passes k (b # bs))"
        using evs'(1) by simp
      show "trace (snd (inference_loop w net tk device (b # bs) k st)) =
          trace st @ batch_events k b @ evs'"
        by (simp only: step evs'(2) tr1 append_assoc)
      show "batch_events k b @ evs' = passes k (b # bs)"
        if "fst (inference_loop w net tk device (b # bs) k st) = None"
        using that evs'(3) by (simp add: step)
    qed
  qed
qed

lemma loop_file:
  "prefix (open_append (results_file st))
     (open_append (results_file (snd (inference_loop w net tk device bs k st))))"
proof (induction bs arbitrary: k st)
  case Nil
  show ?case by simp
next
  case (Cons b bs)
  show ?case
  proof (cases "fst (process_batch w net tk device k b st) = None")
    case False
    show ?thesis
      unfolding loop_Cons_stops [OF False] by (rule process_batch_file)
  next
    case True
    have "prefix (open_append (results_file st))
        (open_append (results_file (snd (process_batch w net tk device k b st))))"
      by (rule process_batch_file)
    also have "prefix (open_append (results_file (snd (process_batch w net tk device k b st))))
        (open_append (results_file (snd (inference_loop w net tk device bs (Suc k)
           (snd (process_batch w net tk device k b st))))))"
      by (rule Cons.IH)
    finally show ?thesis
      unfolding loop_Cons_continues [OF True] .
  qed
qed

lemma loop_keeps_file:
  assumes "results_file st \<noteq> None"
  shows "results_file (snd (inference_loop w net tk device bs k st)) \<noteq> None"
  using assms
proof (induction bs arbitrary: k st)
  case Nil
  then show ?case by simp
next
  case (Cons b bs)
  show ?case
  proof (cases "fst (process_batch w net tk device k b st) = None")
    case False
    show ?thesis
      unfolding loop_Cons_stops [OF False] by (rule process_batch_keeps_file [OF Cons.prems])
  next
    case True
    show ?thesis
      unfolding loop_Cons_continues [OF True]
      by (rule Cons.IH [OF process_batch_keeps_file [OF Cons.prems] ])
  qed
qed

lemma loop_same_trace:
  assumes "trace st = trace st'"
  shows "fst (inference_loop w net tk device bs k st) =
           fst (inference_loop w net tk device bs k st') \<and>
         trace (snd (inference_loop w net tk device bs k st)) =
           trace (snd (inference_loop w net tk device bs k st'))"
  using assms
proof (induction bs arbitrary: k st st')
  case Nil
  then show ?case by simp
next
  case (Cons b bs)
  note same = process_batch_same_trace [OF Cons.prems, of w net tk device k b]
  show ?case
  proof (cases "fst (process_batch w net tk device k b st) = None")
    case False
    with same have False': "fst (process_batch w net tk device k b st') \<noteq> None" by simp
    show ?thesis
      unfolding loop_Cons_stops [OF False] loop_Cons_stops [OF False'] by (rule same)
  next
    case True
    with same have True': "fst (process_batch w net tk device k b st') = None" by simp
    from same have "trace (snd (process_batch w net tk device k b st)) =
        trace (snd (process_batch w net tk device k b st'))" by simp
    from Cons.IH [OF this] show ?thesis
      unfolding loop_Cons_continues [OF True] loop_Cons_continues [OF True'] .
  qed
qed

lemma passes_contains_generate:
  "i < length bs \<Longrightarrow> GENERATE (k + i) 128 \<in> set (passes k bs)"
proof (induction bs arbitrary: k i)
  case Nil
  then show ?case by simp
next
  case (Cons b bs)
  show ?case
  proof (cases i)
    case 0
    then show ?thesis by (simp add: batch_events_def)
  next
    case (Suc i')
    with Cons.prems have "i' < length bs" by simp
    from Cons.IH [OF this, of "Suc k"] Suc show ?thesis by simp
  qed
qed

lemma passes_complete_mem:
  "passes_complete w net tk device k bs \<Longrightarrow> b \<in> set bs \<Longrightarrow>
     \<exists>j. pass_completes w net tk device j b"
  by (induction bs arbitrary: k) auto

lemma process_batch_generate_event:
  assumes "moved w device b"
  shows "GENERATE k 128 \<in> set (trace (snd (process_batch w net tk device k b st)))"
proof (cases rule: process_batch_cases
    [where w = w and device = device and b = b and net = net and tk = tk])
  case not_moved
  with assms show ?thesis by contradiction
next
  case (generate_fails e)
  show ?thesis by (simp add: process_batch_generate_fails [OF generate_fails])
next
  case (decode_fails outs e)
  show ?thesis by (simp add: process_batch_decode_fails [OF decode_fails])
next
  case (written outs dec)
  show ?thesis by (simp add: process_batch_written [OF written] batch_events_def)
qed

lemma loop_trace_grows:
  "set (trace st) \<subseteq> set (trace (snd (inference_loop w net tk device bs k st)))"
proof -
  from loop_trace [of k bs w net tk device st] obtain evs where
    "prefix evs (passes k bs) \<and>
     trace (snd (inference_loop w net tk device bs k st)) = trace st @ evs \<and>
     (fst (inference_loop w net tk device bs k st) = None \<longrightarrow> evs = passes k bs)" ..
  then have "trace (snd (inference_loop w net tk device bs k st)) = trace st @ evs"
    by (rule conjunct1 [OF conjunct2])
  then show ?thesis by simp
qed

lemma loop_reaches_generate:
  assumes "passes_complete w net tk device k pre" and "moved w device b"
  shows "GENERATE (k + length pre) 128 \<in>
     set (trace (snd (inference_loop w net tk device (pre @ b # post) k st)))"
proof -
  define st' where "st' = snd (inference_loop w net tk device pre k st)"
  have l: "inference_loop w net tk device (pre @ b # post) k st =
      inference_loop w net tk device (b # post) (k + length pre) st'"
    unfolding st'_def by (rule loop_append [OF assms(1)])
  note ev = process_batch_generate_event [OF assms(2), of "k + length pre" net tk st']
  show ?thesis
  proof (cases "fst (process_batch w net tk device (k + length pre) b st') = None")
    case False
    show ?thesis
      unfolding l loop_Cons_stops [OF False] by (rule ev)
  next
    case True
    from ev loop_trace_grows show ?thesis
      unfolding l loop_Cons_continues [OF True] by (rule set_mp [rotated])
  qed
qed

subsection \<open>Whole runs\<close>

lemma main_startup_fail:
  assumes "fst (startup a w \<lparr>trace = [], results_file = f0\<rparr>) = Inl e"
  shows "main a w f0 = (Some e, snd (startup a w \<lparr>trace = [], results_file = f0\<rparr>))"
  using assms
  by (cases "startup a w \<lparr>trace = [], results_file = f0\<rparr>") (simp add: main_def)

lemma main_after_startup:
  assumes "startup a w \<lparr>trace = [], results_file = f0\<rparr> = (Inr (tk, dl, m), st1)"
  shows "main a w f0 =
     (case fst (inference_loop w (model m) tk (device_of a) (batches dl) 0 st1) of
        Some e \<Rightarrow> (Some e, snd (inference_loop w (model m) tk (device_of a) (batches dl) 0 st1))
      | None \<Rightarrow>
          (case loader_error dl of
             Some e \<Rightarrow>
               (Some e, snd (inference_loop w (model m) tk (device_of a) (batches dl) 0 st1))
           | None \<Rightarrow>
               (None,
                emit DONE (snd (inference_loop w (model m) tk (device_of a) (batches dl) 0 st1)))))"
  by (cases "inference_loop w (model m) tk (device_of a) (batches dl) 0 st1")
     (simp add: main_def assms split: option.splits)

lemma startup_cases:
  obtains (failed) e where "fst (startup a w st) = Inl e"
  | (started) tk dl m st1 where "startup a w st = (Inr (tk, dl, m), st1)"
proof (cases "startup a w st")
  case (Pair r st1)
  show ?thesis
  proof (cases r)
    case (Inl e)
    with Pair show ?thesis by (intro failed [of e]) simp
  next
    case (Inr t)
    obtain tk dl m where "t = (tk, dl, m)" by (cases t)
    with Pair Inr show ?thesis by (intro started [of tk dl m st1]) simp
  qed
qed

lemma main_complete:
  assumes "startup a w \<lparr>trace = [], results_file = f0\<rparr> = (Inr (tk, dl, m), st1)"
    and "passes_complete w (model m) tk (device_of a) 0 (batches dl)"
    and "loader_error dl = None"
  shows "main a w f0 =
     (None,
      \<lparr>trace = [LOAD_TOKENIZER, LOAD_INPUT, LOAD_CHECKPOINT] @ passes 0 (batches dl) @ [DONE],
       results_file =
         (if batches dl = [] then f0
          else Some (open_append f0 @
                concat (map (\<lambda>d. d @ [newline])
                  (concat (map (predictions (model m) tk) (batches dl))))))\<rparr>)"
  unfolding main_after_startup [OF assms(1)] loop_ok [OF assms(2)]
  by (simp add: assms(3) startup_Inr(1) [OF assms(1)] emit_def)

lemma main_None:
  assumes "startup a w \<lparr>trace = [], results_file = f0\<rparr> = (Inr (tk, dl, m), st1)"
    and "fst (main a w f0) = None"
  shows "passes_complete w (model m) tk (device_of a) 0 (batches dl) \<and> loader_error dl = None"
proof -
  from assms(2) have
    l: "fst (inference_loop w (model m) tk (device_of a) (batches dl) 0 st1) = None"
    unfolding main_after_startup [OF assms(1)] by (simp split: option.splits)
  with assms(2) have "loader_error dl = None"
    unfolding main_after_startup [OF assms(1)] by (simp split: option.splits)
  with loop_None [OF l] show ?thesis by simp
qed

lemma main_generate_fails:
  assumes "startup a w \<lparr>trace = [], results_file = f0\<rparr> = (Inr (tk, dl, m), st1)"
    and "batches dl = pre @ b # post"
    and "passes_complete w (model m) tk (device_of a) 0 pre"
    and "moved w (device_of a) b"
    and "generate (model m) (source_ids b) (source_mask b) 128 = Inl e"
  shows "main a w f0 =
     (Some e,
      \<lparr>trace = [LOAD_TOKENIZER, LOAD_INPUT, LOAD_CHECKPOINT] @ passes 0 pre @
              [ENCODE (length pre) (length (source_ids b)), GENERATE (length pre) 128],
       results_file =
         (if pre = [] then f0
          else Some (open_append f0 @
                concat (map (\<lambda>d. d @ [newline])
                  (concat (map (predictions (model m) tk) pre)))))\<rparr>)"
  unfolding main_after_startup [OF assms(1)] assms(2) loop_generate_fails [OF assms(3-5)]
  by (simp add: startup_Inr(1) [OF assms(1)])

lemma main_trace:
  "\<exists>bs. prefix (trace (snd (main a w f0)))
           ([LOAD_TOKENIZER, LOAD_INPUT, LOAD_CHECKPOINT] @ passes 0 bs @ [DONE]) \<and>
        (fst (main a w f0) = None \<longrightarrow>
           trace (snd (main a w f0)) =
             [LOAD_TOKENIZER, LOAD_INPUT, LOAD_CHECKPOINT] @ passes 0 bs @ [DONE])"
proof (cases rule: startup_cases [where a = a and w = w
      and st = "\<lparr>trace = [], results_file = f0\<rparr>"])
  case (failed e)
  from startup_trace [of a w "\<lparr>trace = [], results_file = f0\<rparr>"] obtain evs where
    evs0: "prefix evs [LOAD_TOKENIZER, LOAD_INPUT, LOAD_CHECKPOINT] \<and>
      trace (snd (startup a w \<lparr>trace = [], results_file = f0\<rparr>)) =
        trace \<lparr>trace = [], results_file = f0\<rparr> @ evs" ..
  then have tr: "trace (snd (main a w f0)) = evs"
    by (simp add: main_startup_fail [OF failed])
  from evs0 have p: "prefix evs ([LOAD_TOKENIZER, LOAD_INPUT, LOAD_CHECKPOINT] @ passes 0 [] @ [DONE])"
    by (intro prefix_prefix) simp
  have ne: "fst (main a w f0) \<noteq> None"
    by (simp add: main_startup_fail [OF failed])
  show ?thesis
  proof (intro exI [of _ "[]"] conjI impI)
    show "prefix (trace (snd (main a w f0)))
        ([LOAD_TOKENIZER, LOAD_INPUT, LOAD_CHECKPOINT] @ passes 0 [] @ [DONE])"
      unfolding tr by (rule p)
    assume "fst (main a w f0) = None"
    with ne show "trace (snd (main a w f0)) =
        [LOAD_TOKENIZER, LOAD_INPUT, LOAD_CHECKPOINT] @ passes 0 [] @ [DONE]"
      by contradiction
  qed
next
  case (started tk dl m st1)
  let ?l = "inference_loop w (model m) tk (device_of a) (batches dl) 0 st1"
  let ?start = "[LOAD_TOKENIZER, LOAD_INPUT, LOAD_CHECKPOINT]"
  have st1: "trace st1 = ?start"
    by (simp add: startup_Inr(1) [OF started])
  from loop_trace [of 0 "batches dl" w "model m" tk "device_of a" st1] obtain evs where
    evs0: "prefix evs (passes 0 (batches dl)) \<and>
      trace (snd ?l) = trace st1 @ evs \<and> (fst ?l = None \<longrightarrow> evs = passes 0 (batches dl))" ..
  note evs = conjunct1 [OF evs0] conjunct1 [OF conjunct2 [OF evs0] ]
    conjunct2 [OF conjunct2 [OF evs0] ]
  have pre: "prefix (?start @ evs) (?start @ passes 0 (batches dl) @ [DONE])"
    using evs(1) by (simp add: prefix_prefix)
  have goal: "prefix (trace (snd (main a w f0))) (?start @ passes 0 (batches dl) @ [DONE]) \<and>
        (fst (main a w f0) = None \<longrightarrow>
           trace (snd (main a w f0)) = ?start @ passes 0 (batches dl) @ [DONE])"
  proof (cases "fst ?l")
    case (Some e)
    then have "main a w f0 = (Some e, snd ?l)"
      by (simp add: main_after_startup [OF started])
    with pre evs(2) st1 show ?thesis by simp
  next
    case None
    with evs(3) have all: "evs = passes 0 (batches dl)" by simp
    show ?thesis
    proof (cases "loader_error dl")
      case (Some e)
      with None have "main a w f0 = (Some e, snd ?l)"
        by (simp add: main_after_startup [OF started])
      with pre evs(2) st1 show ?thesis by simp
    next
      case no_error: None
      with None have "main a w f0 = (None, emit DONE (snd ?l))"
        by (simp add: main_after_startup [OF started])
      with evs(2) st1 all show ?thesis by simp
    qed
  qed
  then show ?thesis by (rule exI)
qed

lemma main_file:
  "prefix (open_append f0) (open_append (results_file (snd (main a w f0))))"
proof (cases rule: startup_cases [where a = a and w = w
      and st = "\<lparr>trace = [], results_file = f0\<rparr>"])
  case (failed e)
  show ?thesis
    by (simp add: main_startup_fail [OF failed] startup_results_file)
next
  case (started tk dl m st1)
  let ?l = "inference_loop w (model m) tk (device_of a) (batches dl) 0 st1"
  have "results_file st1 = f0"
    by (simp add: startup_Inr(1) [OF started])
  with loop_file [of st1 w "model m" tk "device_of a" "batches dl" 0]
  have "prefix (open_append f0) (open_append (results_file (snd ?l)))" by simp
  then show ?thesis
    unfolding main_after_startup [OF started] by (simp split: option.splits)
qed

lemma main_keeps_file:
  assumes "f0 \<noteq> None"
  shows "results_file (snd (main a w f0)) \<noteq> None"
proof (cases rule: startup_cases [where a = a and w = w
      and st = "\<lparr>trace = [], results_file = f0\<rparr>"])
  case (failed e)
  with assms show ?thesis
    by (simp add: main_startup_fail [OF failed] startup_results_file)
next
  case (started tk dl m st1)
  let ?l = "inference_loop w (model m) tk (device_of a) (batches dl) 0 st1"
  from assms have "results_file st1 \<noteq> None"
    by (simp add: startup_Inr(1) [OF started])
  from loop_keeps_file [OF this, of w "model m" tk "device_of a" "batches dl" 0]
  show ?thesis
    unfolding main_after_startup [OF started] by (simp split: option.splits)
qed

lemma main_other_file:
  "fst (main a w f) = fst (main a w f0) \<and>
   trace (snd (main a w f)) = trace (snd (main a w f0))"
proof (cases rule: startup_cases [where a = a and w = w
      and st = "\<lparr>trace = [], results_file = f0\<rparr>"])
  case (failed e)
  have other: "startup a w \<lparr>trace = [], results_file = f\<rparr> =
      (fst (startup a w \<lparr>trace = [], results_file = f0\<rparr>),
       (snd (startup a w \<lparr>trace = [], results_file = f0\<rparr>))\<lparr>results_file := f\<rparr>)"
    using startup_other_file [where a = a and w = w and f = f
        and st = "\<lparr>trace = [], results_file = f0\<rparr>"]
    by simp
  with failed have "fst (startup a w \<lparr>trace = [], results_file = f\<rparr>) = Inl e" by simp
  from main_startup_fail [OF this] main_startup_fail [OF failed] other
  show ?thesis by simp
next
  case (started tk dl m st1)
  have started': "startup a w \<lparr>trace = [], results_file = f\<rparr> =
      (Inr (tk, dl, m), st1\<lparr>results_file := f\<rparr>)"
    using startup_other_file [where a = a and w = w and f = f
        and st = "\<lparr>trace = [], results_file = f0\<rparr>"]
    by (simp add: started)
  have "trace (st1\<lparr>results_file := f\<rparr>) = trace st1" by simp
  from loop_same_trace [OF this, of w "model m" tk "device_of a" "batches dl" 0]
  show ?thesis
    unfolding main_after_startup [OF started] main_after_startup [OF started']
    by (simp split: option.splits)
qed

lemma main_trace_grows:
  assumes "startup a w \<lparr>trace = [], results_file = f0\<rparr> = (Inr (tk, dl, m), st1)"
  shows "set (trace (snd (inference_loop w (model m) tk (device_of a) (batches dl) 0 st1)))
           \<subseteq> set (trace (snd (main a w f0)))"
  unfolding main_after_startup [OF assms] by (auto split: option.splits)

lemma loader_batch_size_is_32:
  assumes "startup a w st0 = (Inr (tk, dl, m), st1)"
  shows "batch_size dl = 32"
    and "main (a\<lparr>eval_batch_size := n\<rparr>) w f0 = main a w f0"
proof -
  from startup_Inr(4) [OF assms] have "dl = DataLoader (dataset dl) 32 4" .
  then show "batch_size dl = 32"
    by (metis DataLoader_def data_loader.select_convs(2))
  have d: "device_of (a\<lparr>eval_batch_size := n\<rparr>) = device_of a"
    by (simp add: device_of_def)
  show "main (a\<lparr>eval_batch_size := n\<rparr>) w f0 = main a w f0"
    unfolding main_def startup_ignores_eval_batch_size d by (rule refl)
qed

subsection \<open>Batches of a loader\<close>

lemma chunks_Nil [simp]: "chunks n [] = []"
  by (simp add: chunks.simps)

lemma chunks_Cons:
  "0 < n \<Longrightarrow> xs \<noteq> [] \<Longrightarrow> chunks n xs = take n xs # chunks n (drop n xs)"
  by (subst chunks.simps) simp

lemma chunks_eq_Nil_iff: "0 < n \<Longrightarrow> chunks n xs = [] \<longleftrightarrow> xs = []"
  by (cases "xs = []") (simp_all add: chunks_Cons)

lemma concat_chunks: "0 < n \<Longrightarrow> concat (chunks n xs) = xs"
proof (induction n xs rule: chunks.induct)
  case (1 n xs)
  show ?case
  proof (cases "xs = []")
    case True
    then show ?thesis by simp
  next
    case False
    with 1 show ?thesis by (simp add: chunks_Cons)
  qed
qed

lemma map_length_chunks:
  "0 < n \<Longrightarrow> map length (chunks n xs) =
     replicate (length xs div n) n @ (if length xs mod n = 0 then [] else [length xs mod n])"
proof (induction n xs rule: chunks.induct)
  case (1 n xs)
  show ?case
  proof (cases "xs = []")
    case True
    then show ?thesis by simp
  next
    case False
    note ne = this
    show ?thesis
    proof (cases "n \<le> length xs")
      case True
      then have d: "length xs div n = Suc ((length xs - n) div n)"
        and m: "length xs mod n = (length xs - n) mod n"
        using \<open>0 < n\<close> by (simp_all add: le_div_geq le_mod_geq)
      from 1 ne True show ?thesis
        by (simp add: chunks_Cons d m min_def)
    next
      case False
      then have "drop n xs = []" "take n xs = xs" by simp_all
      with False ne \<open>0 < n\<close> show ?thesis
        by (simp add: chunks_Cons)
    qed
  qed
qed

lemma chunks_nth:
  "0 < n \<Longrightarrow> i < length xs \<Longrightarrow>
     i div n < length (chunks n xs) \<and> i mod n < length (chunks n xs ! (i div n)) \<and>
     chunks n xs ! (i div n) ! (i mod n) = xs ! i"
proof (induction n xs arbitrary: i rule: chunks.induct)
  case (1 n xs)
  from "1.prems" have ne: "xs \<noteq> []" by auto
  show ?case
  proof (cases "i < n")
    case True
    with "1.prems" ne show ?thesis by (simp add: chunks_Cons)
  next
    case False
    then have d: "i div n = Suc ((i - n) div n)" and m: "i mod n = (i - n) mod n"
      using \<open>0 < n\<close> by (simp_all add: le_div_geq le_mod_geq)
    from False "1.prems" have "i - n < length (drop n xs)" by simp
    from "1.IH" [OF _ \<open>0 < n\<close> this] ne \<open>0 < n\<close>
    have "(i - n) div n < length (chunks n (drop n xs)) \<and>
          (i - n) mod n < length (chunks n (drop n xs) ! ((i - n) div n)) \<and>
          chunks n (drop n xs) ! ((i - n) div n) ! ((i - n) mod n) = drop n xs ! (i - n)"
      by simp
    with False "1.prems" ne show ?thesis
      by (simp add: chunks_Cons d m)
  qed
qed

lemma concat_nth_chunked:
  "0 < n \<Longrightarrow> map length yss = map length (chunks n xs) \<Longrightarrow> i < length xs \<Longrightarrow>
     concat yss ! i = yss ! (i div n) ! (i mod n)"
proof (induction n xs arbitrary: i yss rule: chunks.induct)
  case (1 n xs)
  from "1.prems" have ne: "xs \<noteq> []" by auto
  with "1.prems" obtain ys yss' where
    yss: "yss = ys # yss'" "length ys = min (length xs) n"
      "map length yss' = map length (chunks n (drop n xs))"
    by (cases yss) (auto simp: chunks_Cons)
  show ?case
  proof (cases "i < n")
    case True
    with "1.prems" yss show ?thesis by (simp add: nth_append)
  next
    case False
    then have d: "i div n = Suc ((i - n) div n)" and m: "i mod n = (i - n) mod n"
      using \<open>0 < n\<close> by (simp_all add: le_div_geq le_mod_geq)
    from False "1.prems" have lt: "i - n < length (drop n xs)" by simp
    from False "1.prems" yss have len: "length ys = n" by simp
    from "1.IH" [OF _ \<open>0 < n\<close> yss(3) lt] ne \<open>0 < n\<close>
    have "concat yss' ! (i - n) = yss' ! ((i - n) div n) ! ((i - n) mod n)"
      by simp
    with False len show ?thesis
      by (simp add: yss(1) nth_append d m)
  qed
qed

lemma length_concat_chunked:
  assumes "0 < n" and "map length yss = map length (chunks n xs)"
  shows "length (concat yss) = length xs"
proof -
  have "length (concat yss) = sum_list (map length yss)"
    by (simp add: length_concat)
  also have "\<dots> = length (concat (chunks n xs))"
    by (simp add: assms(2) length_concat)
  finally show ?thesis by (simp add: concat_chunks [OF assms(1)])
qed

lemma default_collate_Inr:
  assumes "default_collate c = Inr b"
  shows "source_ids b = map item_source_ids c" and "source_mask b = map item_source_mask c"
  using assms by (auto simp: default_collate_def split: list.splits if_splits)

lemma collate_batches_all:
  assumes "snd (collate_batches cs) = None"
  shows "list_all2 (\<lambda>c b. default_collate c = Inr b) cs (fst (collate_batches cs))"
  using assms
proof (induction cs)
  case Nil
  then show ?case by simp
next
  case (Cons c cs)
  then show ?case
    by (cases "default_collate c"; cases "collate_batches cs") auto
qed

lemma batches_of_chunks:
  assumes "loader_error dl = None"
  shows "list_all2 (\<lambda>c b. default_collate c = Inr b)
     (chunks (batch_size dl) (dataset dl)) (batches dl)"
  using assms unfolding loader_error_def batches_def by (rule collate_batches_all)

subsection \<open>Lines of a text\<close>

lemma text_lines_from_line:
  "newline \<notin> set d \<Longrightarrow>
     text_lines_from cur (d @ newline # rest) = (cur @ d) # text_lines_from [] rest"
  by (induction d arbitrary: cur) auto

lemma text_lines_joined:
  "\<forall>d\<in>set ds. newline \<notin> set d \<Longrightarrow>
     text_lines (concat (map (\<lambda>d. d @ [newline]) ds)) = ds"
  unfolding text_lines_def
  by (induction ds) (simp_all add: text_lines_from_line)

lemma text_lines_from_terminated:
  "text_lines_from cur (c @ newline # s) = text_lines_from cur (c @ [newline]) @ text_lines_from [] s"
  by (induction c arbitrary: cur) simp_all

lemma text_lines_append:
  assumes "c = [] \<or> last c = newline"
  shows "text_lines (c @ s) = text_lines c @ text_lines s"
proof (cases "c = []")
  case True
  then show ?thesis by (simp add: text_lines_def)
next
  case False
  with assms have "c = butlast c @ [newline]"
    by (metis append_butlast_last_id)
  then obtain c' where c: "c = c' @ [newline]" ..
  show ?thesis
    unfolding c text_lines_def using text_lines_from_terminated [of "[]" c' s] by simp
qed

subsection \<open>The concrete installation\<close>

lemma startup0:
  "startup args0 (world_with net) \<lparr>trace = [], results_file = f0\<rparr> =
     (Inr (tok0, DataLoader items0 32 4, \<lparr>model = net, ft_tokenizer = tok0\<rparr>),
      \<lparr>trace = [LOAD_TOKENIZER, LOAD_INPUT, LOAD_CHECKPOINT], results_file = f0\<rparr>)"
  by (simp add: startup_def world_with_def args0_def emit_def)

lemma collate0:
  "collate_batches (chunks 32 items0) =
     ([\<lparr>source_ids = replicate 32 [0], source_mask = replicate 32 [1]\<rparr>,
       \<lparr>source_ids = [ [7] ], source_mask = [ [1] ]\<rparr>], None)"
  by code_simp

lemma batches0:
  "batches (DataLoader items0 32 4) =
     [\<lparr>source_ids = replicate 32 [0], source_mask = replicate 32 [1]\<rparr>] @
     \<lparr>source_ids = [ [7] ], source_mask = [ [1] ]\<rparr> # []"
  by (simp add: batches_def DataLoader_def collate0)

lemma loader_error0: "loader_error (DataLoader items0 32 4) = None"
  by (simp add: loader_error_def DataLoader_def collate0)

lemma decode_all_tok0:
  "decode_all tok0 outs =
     Inr (map (\<lambda>ids. concat (map (\<lambda>i. if i = 0 then ''x'' else ''y'') ids)) outs)"
  by (induction outs) (simp_all add: tok0_def)

lemma pass_completes0:
  "pass_completes (world_with net) net' tok0 device k b = (\<not> generation_fails net' b)"
  by (simp add: pass_completes_def moved_def world_with_def decode_all_tok0 list_all_iff)

lemma moved0: "moved (world_with net) device b"
  by (simp add: moved_def world_with_def)

text \<open>
  Two runs that fail outside the generation routine: the loader cannot stack rows of
  different lengths, so the run ends before its first pass with nothing written; and the
  disk is full when the second batch is written, so the run ends in its second pass with
  the 32 lines of the first batch in the file.
\<close>

lemma failing_runs_examples:
  "main args0 world_ragged None =
     (Some (RuntimeError ''stack expects each tensor to be equal size''),
      \<lparr>trace = [LOAD_TOKENIZER, LOAD_INPUT, LOAD_CHECKPOINT], results_file = None\<rparr>)"
  "fst (main args0 world_disk_full None) = Some (OSError ''No space left on device'')"
  "trace (snd (main args0 world_disk_full None)) =
     [LOAD_TOKENIZER, LOAD_INPUT, LOAD_CHECKPOINT,
      ENCODE 0 32, GENERATE 0 128, DECODE 0, APPEND_TO_OUTPUT 0,
      ENCODE 1 1, GENERATE 1 128, DECODE 1, APPEND_TO_OUTPUT 1]"
  "map_option (\<lambda>s. length (text_lines s)) (results_file (snd (main args0 world_disk_full None)))
     = Some 32"
  by code_simp+

section \<open>Facts about the training step\<close>

lemma step_store:
  assumes "batch ''target_ids'' = Some a"
  shows "snd (step self batch h) =
     h(a := masked_fill (pad_token_id (ft_tokenizer self)) (- 100) (h a))"
  using assms
  by (simp add: step_def Let_def)

lemma step_example:
  "step \<lparr>model = net0, ft_tokenizer = tok0\<rparr> batch0 store0 =
     (Inr (1 / 2), store0(2 := [ [8, 9, - 100], [4, - 100, - 100] ]))"
  by (simp add: step_def Let_def step_loss_def batch0_def store0_def net0_def tok0_def
      forward_def masked_fill_def)

section \<open>Facts about the scorer\<close>

lemma true_positives_le_predicted: "true_positives ps \<le> predicted_count ps"
  unfolding true_positives_def predicted_count_def
  by (rule sum_list_mono) (auto simp: fcard_mono)

lemma true_positives_le_gold: "true_positives ps \<le> gold_count ps"
  unfolding true_positives_def gold_count_def
  by (rule sum_list_mono) (auto simp: fcard_mono)

lemma precision_range: "0 \<le> precision ps \<and> precision ps \<le> 1"
  using true_positives_le_predicted [of ps] by (simp add: precision_def)

lemma recall_range: "0 \<le> recall ps \<and> recall ps \<le> 1"
  using true_positives_le_gold [of ps] by (simp add: recall_def)

lemma harmonic_range:
  fixes p r :: rat
  assumes "0 \<le> p" "p \<le> 1" "0 \<le> r" "r \<le> 1" "\<not> (p = 0 \<and> r = 0)"
  shows "0 \<le> 2 * p * r / (p + r) \<and> 2 * p * r / (p + r) \<le> 1"
proof -
  from assms have pos: "0 < p + r" by linarith
  have "p * r \<le> p * 1" using assms by (intro mult_left_mono) simp_all
  moreover have "p * r \<le> 1 * r" using assms by (intro mult_right_mono) simp_all
  ultimately have "2 * p * r \<le> p + r" by simp
  with pos assms show ?thesis by simp
qed

text \<open>
  The three examples of section 8 of the specification: a perfect prediction, an empty
  prediction, and two examples of which one is predicted.
\<close>

lemma scorer_examples:
  "precision [({|(''a'', ''POS'')|}, {|(''a'', ''POS'')|})] = 1"
  "recall [({|(''a'', ''POS'')|}, {|(''a'', ''POS'')|})] = 1"
  "f1 [({|(''a'', ''POS'')|}, {|(''a'', ''POS'')|})] = 1"
  "precision [({|(''a'', ''POS'')|}, {||})] = 0"
  "recall [({|(''a'', ''POS'')|}, {||})] = 0"
  "f1 [({|(''a'', ''POS'')|}, {||})] = 0"
  "precision [({|(''a'', ''POS'')|}, {|(''a'', ''POS'')|}), ({|(''b'', ''NEG'')|}, {||})] = 1"
  "recall [({|(''a'', ''POS'')|}, {|(''a'', ''POS'')|}), ({|(''b'', ''NEG'')|}, {||})] = 1 / 2"
  "f1 [({|(''a'', ''POS'')|}, {|(''a'', ''POS'')|}), ({|(''b'', ''NEG'')|}, {||})] = 2 / 3"
  by code_simp+

section \<open>Claims\<close>

subsection \<open>C1: one prediction line per example, in input order\<close>

text \<open>
  C1, as stated, fails in three ways. A run over two examples whose generation routine
  returns two rows per input row completes and appends four lines. A run over one example
  whose decoded prediction holds a newline completes and appends two lines. A run over 33
  examples whose generation routine raises on the second batch ends with 32 lines
  appended.
\<close>

theorem one_line_per_example_counterexample:
  "MyDataset world_twice tok0 (file_path args0) (paradigm args0) (task args0) (max_seq_length args0)
     = Inr [\<lparr>item_source_ids = [0], item_source_mask = [1]\<rparr>,
            \<lparr>item_source_ids = [7], item_source_mask = [1]\<rparr>] \<and>
   fst (main args0 world_twice None) = None \<and>
   map_option text_lines (results_file (snd (main args0 world_twice None)))
     = Some [''x'', ''x'', ''y'', ''y''] \<and>
   MyDataset world_newline tok_nl (file_path args0) (paradigm args0) (task args0)
       (max_seq_length args0)
     = Inr [\<lparr>item_source_ids = [7], item_source_mask = [1]\<rparr>] \<and>
   fst (main args0 world_newline None) = None \<and>
   map_option text_lines (results_file (snd (main args0 world_newline None)))
     = Some [''a'', ''b''] \<and>
   length items0 = 33 \<and>
   fst (main args0 (world_with net1) None) = Some (RuntimeError ''CUDA out of memory'') \<and>
   map_option (\<lambda>s. length (text_lines s)) (results_file (snd (main args0 (world_with net1) None)))
     = Some 32"
proof -
  have "MyDataset world_twice tok0 (file_path args0) (paradigm args0) (task args0)
      (max_seq_length args0)
     = Inr [\<lparr>item_source_ids = [0], item_source_mask = [1]\<rparr>,
            \<lparr>item_source_ids = [7], item_source_mask = [1]\<rparr>]"
    by (simp add: world_twice_def world_with_def)
  moreover have "MyDataset world_newline tok_nl (file_path args0) (paradigm args0) (task args0)
       (max_seq_length args0)
     = Inr [\<lparr>item_source_ids = [7], item_source_mask = [1]\<rparr>]"
    by (simp add: world_newline_def world_with_def)
  moreover have "fst (main args0 world_twice None) = None"
    by code_simp
  moreover have "map_option text_lines (results_file (snd (main args0 world_twice None)))
     = Some [''x'', ''x'', ''y'', ''y'']"
    by code_simp
  moreover have "fst (main args0 world_newline None) = None"
    by code_simp
  moreover have "map_option text_lines (results_file (snd (main args0 world_newline None)))
     = Some [''a'', ''b'']"
    by code_simp
  moreover have "length items0 = 33"
    by (simp add: items0_def)
  moreover have "fst (main args0 (world_with net1) None) = Some (RuntimeError ''CUDA out of memory'')"
    by code_simp
  moreover have "map_option (\<lambda>s. length (text_lines s))
      (results_file (snd (main args0 (world_with net1) None))) = Some 32"
    by code_simp
  ultimately show ?thesis by simp
qed

text \<open>
  C1, amended. Take a run that completes, in which the generation routine returns one
  output row per input row on every batch and no decoded prediction holds a newline. Then
  the passes are taken over the batches in their order, one pass each; the text appended to
  the results file consists of the lines \<open>ls\<close>, one per element of the input dataset and
  each closed by a newline; line \<open>i\<close> is the decoding of output row \<open>i mod 32\<close> of batch
  \<open>i div 32\<close>, the row of that batch that holds element \<open>i\<close> of the input; and when
  the file was empty, missing or closed by a newline before the run, its lines afterwards
  are its previous lines followed by \<open>ls\<close>.
\<close>

theorem one_line_per_example_in_input_order:
  assumes "startup a w \<lparr>trace = [], results_file = f0\<rparr> = (Inr (tk, dl, m), st1)"
    and "fst (main a w f0) = None"
    and "\<forall>b\<in>set (batches dl). length (generated (model m) b) = length (source_ids b)"
    and "\<forall>b\<in>set (batches dl). \<forall>d\<in>set (predictions (model m) tk b). newline \<notin> set d"
  shows "\<exists>ls. ls = concat (map (predictions (model m) tk) (batches dl)) \<and>
           MyDataset w tk (file_path a) (paradigm a) (task a) (max_seq_length a)
             = Inr (dataset dl) \<and>
           trace (snd (main a w f0)) =
             [LOAD_TOKENIZER, LOAD_INPUT, LOAD_CHECKPOINT] @
             concat (map (\<lambda>k. [ENCODE k (length (source_ids (batches dl ! k))), GENERATE k 128,
                                DECODE k, APPEND_TO_OUTPUT k]) [0..<length (batches dl)]) @
             [DONE] \<and>
           results_file (snd (main a w f0)) =
             (if dataset dl = [] then f0
              else Some (open_append f0 @ concat (map (\<lambda>l. l @ [newline]) ls))) \<and>
           text_lines (concat (map (\<lambda>l. l @ [newline]) ls)) = ls \<and>
           (open_append f0 = [] \<or> last (open_append f0) = newline \<longrightarrow>
              text_lines (open_append (results_file (snd (main a w f0)))) =
                text_lines (open_append f0) @ ls) \<and>
           length ls = length (dataset dl) \<and>
           (\<forall>i<length (dataset dl).
              source_ids (batches dl ! (i div 32)) ! (i mod 32)
                = item_source_ids (dataset dl ! i) \<and>
              source_mask (batches dl ! (i div 32)) ! (i mod 32)
                = item_source_mask (dataset dl ! i) \<and>
              decode tk (generated (model m) (batches dl ! (i div 32)) ! (i mod 32)) True
                = Inr (ls ! i))"
proof -
  define ls where "ls = concat (map (predictions (model m) tk) (batches dl))"
  let ?cs = "chunks 32 (dataset dl)"
  from main_None [OF assms(1,2)] have
    complete: "passes_complete w (model m) tk (device_of a) 0 (batches dl)"
    and no_error: "loader_error dl = None"
    by simp_all
  from startup_Inr(4) [OF assms(1)] have dl: "dl = DataLoader (dataset dl) 32 4" .
  then have "batch_size dl = 32"
    by (metis DataLoader_def data_loader.select_convs(2))
  with batches_of_chunks [OF no_error]
  have all2: "list_all2 (\<lambda>c b. default_collate c = Inr b) ?cs (batches dl)"
    by simp
  then have n: "length (batches dl) = length ?cs"
    by (simp add: list_all2_lengthD)
  have col: "default_collate (?cs ! k) = Inr (batches dl ! k)" if "k < length ?cs" for k
    using all2 that by (rule list_all2_nthD)
  have decoded: "\<exists>ds. decode_all tk (generated (model m) b) = Inr ds \<and>
      predictions (model m) tk b = ds" if "b \<in> set (batches dl)" for b
  proof -
    from passes_complete_mem [OF complete that] obtain j where
      "pass_completes w (model m) tk (device_of a) j b" ..
    then have "\<not> isl (decode_all tk (generated (model m) b))"
      by (simp add: pass_completes_def)
    then obtain ds where "decode_all tk (generated (model m) b) = Inr ds"
      by (cases "decode_all tk (generated (model m) b)") auto
    then show ?thesis by (simp add: predictions_def)
  qed
  have rows: "length (predictions (model m) tk b) = length (source_ids b)"
    if "b \<in> set (batches dl)" for b
  proof -
    from decoded [OF that] obtain ds where
      ds: "decode_all tk (generated (model m) b) = Inr ds" "predictions (model m) tk b = ds"
      by blast
    from decode_all_Inr [OF ds(1)] assms(3) that ds(2) show ?thesis by simp
  qed
  have shape: "map length (map (predictions (model m) tk) (batches dl)) = map length ?cs"
  proof (rule nth_equalityI)
    show "length (map length (map (predictions (model m) tk) (batches dl))) =
        length (map length ?cs)"
      by (simp add: n)
    fix k
    assume "k < length (map length (map (predictions (model m) tk) (batches dl)))"
    then have k: "k < length ?cs" and kb: "k < length (batches dl)" by (simp_all add: n)
    from kb have "batches dl ! k \<in> set (batches dl)" by (rule nth_mem)
    from rows [OF this] default_collate_Inr(1) [OF col [OF k] ] k kb
    show "map length (map (predictions (model m) tk) (batches dl)) ! k = map length ?cs ! k"
      by simp
  qed
  have len: "length ls = length (dataset dl)"
    unfolding ls_def by (rule length_concat_chunked [OF _ shape]) simp
  have empty: "batches dl = [] \<longleftrightarrow> dataset dl = []"
  proof -
    have "batches dl = [] \<longleftrightarrow> ?cs = []"
      using n by (metis length_0_conv)
    then show ?thesis by (simp add: chunks_eq_Nil_iff)
  qed
  note run = main_complete [OF assms(1) complete no_error]
  have fl: "results_file (snd (main a w f0)) =
      (if dataset dl = [] then f0
       else Some (open_append f0 @ concat (map (\<lambda>l. l @ [newline]) ls)))"
    by (simp add: run empty ls_def)
  have tr: "trace (snd (main a w f0)) =
      [LOAD_TOKENIZER, LOAD_INPUT, LOAD_CHECKPOINT] @
      concat (map (\<lambda>k. [ENCODE k (length (source_ids (batches dl ! k))), GENERATE k 128,
                         DECODE k, APPEND_TO_OUTPUT k]) [0..<length (batches dl)]) @
      [DONE]"
    by (simp add: run passes_eq batch_events_def)
  have lines: "text_lines (concat (map (\<lambda>l. l @ [newline]) ls)) = ls"
    by (rule text_lines_joined) (use assms(4) in \<open>auto simp: ls_def\<close>)
  have whole: "text_lines (open_append (results_file (snd (main a w f0)))) =
      text_lines (open_append f0) @ ls"
    if "open_append f0 = [] \<or> last (open_append f0) = newline"
  proof (cases "dataset dl = []")
    case True
    with len fl show ?thesis by simp
  next
    case False
    with fl have "open_append (results_file (snd (main a w f0))) =
        open_append f0 @ concat (map (\<lambda>l. l @ [newline]) ls)"
      by (simp add: open_append_def)
    with text_lines_append [OF that] lines show ?thesis by simp
  qed
  have nth: "source_ids (batches dl ! (i div 32)) ! (i mod 32) = item_source_ids (dataset dl ! i) \<and>
      source_mask (batches dl ! (i div 32)) ! (i mod 32) = item_source_mask (dataset dl ! i) \<and>
      decode tk (generated (model m) (batches dl ! (i div 32)) ! (i mod 32)) True = Inr (ls ! i)"
    if i: "i < length (dataset dl)" for i
  proof -
    let ?b = "batches dl ! (i div 32)"
    from chunks_nth [of 32 i "dataset dl"] i have
      k: "i div 32 < length ?cs" and j: "i mod 32 < length (?cs ! (i div 32))"
      and x: "?cs ! (i div 32) ! (i mod 32) = dataset dl ! i"
      by simp_all
    note c = default_collate_Inr [OF col [OF k] ]
    from k have mem: "?b \<in> set (batches dl)"
      by (intro nth_mem) (simp add: n)
    from decoded [OF mem] obtain ds where
      ds: "decode_all tk (generated (model m) ?b) = Inr ds" "predictions (model m) tk ?b = ds"
      by blast
    from assms(3) mem c(1) j have jj: "i mod 32 < length (generated (model m) ?b)"
      by simp
    have "ls ! i = map (predictions (model m) tk) (batches dl) ! (i div 32) ! (i mod 32)"
      unfolding ls_def by (rule concat_nth_chunked [OF _ shape i]) simp
    also have "\<dots> = ds ! (i mod 32)"
      using k by (simp add: n ds(2))
    finally have "decode tk (generated (model m) ?b ! (i mod 32)) True = Inr (ls ! i)"
      using decode_all_Inr [OF ds(1)] jj by simp
    moreover have "source_ids ?b ! (i mod 32) = item_source_ids (dataset dl ! i)"
      using j x by (simp add: c(1))
    moreover have "source_mask ?b ! (i mod 32) = item_source_mask (dataset dl ! i)"
      using j x by (simp add: c(2))
    ultimately show ?thesis by simp
  qed
  from fl tr lines len nth whole startup_Inr(3) [OF assms(1)] show ?thesis
    unfolding ls_def by blast
qed

text \<open>
  C1, amended, at a run over 33 elements in two batches that appends to a file holding the
  line \<open>old\<close>: 33 lines follow it, and the last one is the prediction for the last
  element.
\<close>

theorem one_line_per_example_in_input_order_witness:
  "fst (main args0 (world_with net0) (Some (''old'' @ [newline]))) = None \<and>
   (\<exists>ls. length ls = 33 \<and> ls ! 32 = ''y'' \<and>
      results_file (snd (main args0 (world_with net0) (Some (''old'' @ [newline])))) =
        Some (''old'' @ [newline] @ concat (map (\<lambda>l. l @ [newline]) ls)) \<and>
      text_lines (open_append
        (results_file (snd (main args0 (world_with net0) (Some (''old'' @ [newline]))))))
        = ''old'' # ls)"
proof -
  let ?m = "\<lparr>model = net0, ft_tokenizer = tok0\<rparr>"
  let ?dl = "DataLoader items0 32 4"
  let ?f = "Some (''old'' @ [newline])"
  have fin: "fst (main args0 (world_with net0) ?f) = None"
    by code_simp
  have gen: "\<forall>b\<in>set (batches ?dl). length (generated (model ?m) b) = length (source_ids b)"
    by (simp add: batches0 generated_def net0_def)
  have nonl: "\<forall>b\<in>set (batches ?dl). \<forall>d\<in>set (predictions (model ?m) tok0 b). newline \<notin> set d"
    by (simp add: batches0 predictions_def generated_def net0_def decode_all_tok0)
  have ds: "dataset ?dl = items0" "length items0 = 33" "items0 \<noteq> []"
    by (simp_all add: DataLoader_def items0_def)
  have last: "generated (model ?m) (batches ?dl ! (32 div 32)) ! (32 mod 32) = [7]"
    by (simp add: batches0 generated_def net0_def)
  have old: "text_lines (''old'' @ [newline]) = [''old'']"
    by (simp add: text_lines_def)
  from one_line_per_example_in_input_order [OF startup0 [of net0 ?f] fin gen nonl]
  obtain ls where ls:
    "results_file (snd (main args0 (world_with net0) ?f)) =
       Some (''old'' @ [newline] @ concat (map (\<lambda>l. l @ [newline]) ls))"
    "text_lines (open_append (results_file (snd (main args0 (world_with net0) ?f)))) =
       text_lines (''old'' @ [newline]) @ ls"
    "length ls = 33"
    "\<forall>i<33. decode tok0 (generated (model ?m) (batches ?dl ! (i div 32)) ! (i mod 32)) True
       = Inr (ls ! i)"
    unfolding ds by (auto simp: ds open_append_def)
  have "(32::nat) < 33" by simp
  with ls(4) have "decode tok0 (generated (model ?m) (batches ?dl ! (32 div 32)) ! (32 mod 32)) True
      = Inr (ls ! 32)"
    by blast
  then have "ls ! 32 = ''y''"
    unfolding last by (simp add: tok0_def)
  with ls(1-3) fin old show ?thesis by auto
qed

subsection \<open>C2: the previous contents of the results file are kept\<close>

text \<open>
  C2. Writing the predictions keeps what the results file held before the run: whatever the
  outcome of the run, the file afterwards is its previous contents followed by the appended
  text (which is empty when the run fails before its first write).
\<close>

theorem results_appended_after_existing_contents:
  "\<exists>app. results_file (snd (main a w (Some c))) = Some (c @ app)"
proof -
  from main_keeps_file [of "Some c" a w] obtain y where
    y: "results_file (snd (main a w (Some c))) = Some y"
    by auto
  from main_file [of "Some c" a w] have "prefix c y"
    by (simp add: y open_append_def)
  then obtain app where "y = c @ app"
    by (auto simp: prefix_def)
  with y show ?thesis by simp
qed

subsection \<open>C3: the order of the steps\<close>




subsection \<open>C4: the batch size of the loader\<close>

text \<open>
  C4. The script declares \<^verbatim>\<open>--eval_batch_size\<close> as the batch size for evaluation
  (lines 77--82) and \<^verbatim>\<open>val_dataloader\<close> passes it to its loader (lines 276--278), but
  the loader of the driver is built with the literal 32 (line 330). Run with
  \<^verbatim>\<open>--eval_batch_size 16\<close> over 33 examples, the driver takes two passes, over 32 rows
  and over 1 row, where the claim asks for batches of 16.
\<close>

theorem eval_batch_size_16_is_ignored:
  "eval_batch_size args0 = 16 \<and> length items0 = 33 \<and>
   trace (snd (main args0 (world_with net0) None)) =
     [LOAD_TOKENIZER, LOAD_INPUT, LOAD_CHECKPOINT,
      ENCODE 0 32, GENERATE 0 128, DECODE 0, APPEND_TO_OUTPUT 0,
      ENCODE 1 1, GENERATE 1 128, DECODE 1, APPEND_TO_OUTPUT 1, DONE]"
proof -
  have "eval_batch_size args0 = 16" by (simp add: args0_def)
  moreover have "length items0 = 33" by (simp add: items0_def)
  moreover have "trace (snd (main args0 (world_with net0) None)) =
     [LOAD_TOKENIZER, LOAD_INPUT, LOAD_CHECKPOINT,
      ENCODE 0 32, GENERATE 0 128, DECODE 0, APPEND_TO_OUTPUT 0,
      ENCODE 1 1, GENERATE 1 128, DECODE 1, APPEND_TO_OUTPUT 1, DONE]"
    by code_simp
  ultimately show ?thesis by simp
qed

subsection \<open>C6: the metrics of the scorer\<close>

text \<open>
  C6. For every list of (gold, predicted) pairs, precision is the number of true positives
  over the number of predicted tuples, and 0 when nothing is predicted; recall is the number
  of true positives over the number of gold tuples, and 0 when there is no gold tuple; F1 is
  the harmonic mean of the two, and 0 when both are 0; and each of the three lies between 0
  and 1. The metrics are total functions: no input makes them undefined.
\<close>

theorem scorer_metrics_defined_and_in_unit_interval:
  "precision ps =
     (if predicted_count ps = 0 then 0
      else of_nat (true_positives ps) / of_nat (predicted_count ps)) \<and>
   recall ps =
     (if gold_count ps = 0 then 0
      else of_nat (true_positives ps) / of_nat (gold_count ps)) \<and>
   f1 ps =
     (if precision ps = 0 \<and> recall ps = 0 then 0
      else 2 * precision ps * recall ps / (precision ps + recall ps)) \<and>
   0 \<le> precision ps \<and> precision ps \<le> 1 \<and>
   0 \<le> recall ps \<and> recall ps \<le> 1 \<and>
   0 \<le> f1 ps \<and> f1 ps \<le> 1"
proof -
  have "0 \<le> f1 ps \<and> f1 ps \<le> 1"
  proof (cases "precision ps = 0 \<and> recall ps = 0")
    case True
    then show ?thesis by (simp add: f1_def)
  next
    case False
    with harmonic_range [of "precision ps" "recall ps"] precision_range [of ps] recall_range [of ps]
    show ?thesis by (simp add: f1_def)
  qed
  then show ?thesis
    using precision_range [of ps] recall_range [of ps]
    by (simp add: precision_def [symmetric] recall_def [symmetric] f1_def [symmetric])
qed

subsection \<open>C7: a failing generation call ends the run\<close>

text \<open>
  C7. Take a run whose start-up succeeds and whose generation routine raises on batch
  number \<open>length pre\<close>, the first error of the run: the passes over the batches \<open>pre\<close>
  before it are complete and the tensors of the batch are on the device. Then the run
  ends with that error; its steps are the loading steps, the full passes over the batches
  before the failing one, and \<open>ENCODE\<close> and \<open>GENERATE\<close> of the failing batch, after
  which nothing follows: no step is taken twice (no retry), no step works on a later batch,
  and the file holds the predictions of the batches before the failing one only. Started
  again on any file contents, the run takes the same steps from batch 0 and fails alike: it
  does not resume.
\<close>

theorem generation_failure_aborts_run:
  assumes "startup a w \<lparr>trace = [], results_file = f0\<rparr> = (Inr (tk, dl, m), st1)"
    and "batches dl = pre @ b # post"
    and "passes_complete w (model m) tk (device_of a) 0 pre"
    and "moved w (device_of a) b"
    and "generate (model m) (source_ids b) (source_mask b) 128 = Inl e"
  shows "fst (main a w f0) = Some e \<and>
         trace (snd (main a w f0)) =
           [LOAD_TOKENIZER, LOAD_INPUT, LOAD_CHECKPOINT] @
           concat (map (\<lambda>k. [ENCODE k (length (source_ids (pre ! k))), GENERATE k 128,
                              DECODE k, APPEND_TO_OUTPUT k]) [0..<length pre]) @
           [ENCODE (length pre) (length (source_ids b)), GENERATE (length pre) 128] \<and>
         distinct (trace (snd (main a w f0))) \<and>
         (\<forall>ev\<in>set (trace (snd (main a w f0))). \<forall>j.
            batch_index ev = Some j \<longrightarrow> j \<le> length pre) \<and>
         results_file (snd (main a w f0)) =
           (if pre = [] then f0
            else Some (open_append f0 @
                  concat (map (\<lambda>d. d @ [newline])
                    (concat (map (predictions (model m) tk) pre))))) \<and>
         (\<forall>f. fst (main a w f) = Some e \<and>
              trace (snd (main a w f)) = trace (snd (main a w f0)))"
proof -
  let ?last = "[ENCODE (length pre) (length (source_ids b)), GENERATE (length pre) 128]"
  have tr: "trace (snd (main a w f0)) =
      [LOAD_TOKENIZER, LOAD_INPUT, LOAD_CHECKPOINT] @ passes 0 pre @ ?last"
    by (simp add: main_generate_fails [OF assms])
  have idx: "j < length pre" if "ev \<in> set (passes 0 pre)" "batch_index ev = Some j" for ev j
    using passes_index [OF that(1)] that(2) by auto
  have "distinct (passes 0 pre @ ?last)"
    using idx [of "ENCODE (length pre) (length (source_ids b))" "length pre"]
      idx [of "GENERATE (length pre) 128" "length pre"]
    by (auto simp: distinct_passes)
  moreover have "ev \<notin> set (passes 0 pre @ ?last)"
    if "ev \<in> {LOAD_TOKENIZER, LOAD_INPUT, LOAD_CHECKPOINT}" for ev
    using that passes_index [of ev 0 pre] by auto
  ultimately have "distinct (trace (snd (main a w f0)))"
    unfolding tr by auto
  moreover have "\<forall>ev\<in>set (trace (snd (main a w f0))). \<forall>j.
            batch_index ev = Some j \<longrightarrow> j \<le> length pre"
    unfolding tr using idx by (auto simp: less_imp_le)
  moreover have "trace (snd (main a w f0)) =
           [LOAD_TOKENIZER, LOAD_INPUT, LOAD_CHECKPOINT] @
           concat (map (\<lambda>k. [ENCODE k (length (source_ids (pre ! k))), GENERATE k 128,
                              DECODE k, APPEND_TO_OUTPUT k]) [0..<length pre]) @ ?last"
    using tr unfolding passes_eq batch_events_def plus_nat.add_0 .
  moreover have "fst (main a w f) = Some e \<and>
      trace (snd (main a w f)) = trace (snd (main a w f0))" for f
    using main_other_file [of a w f f0] by (simp add: main_generate_fails [OF assms])
  ultimately show ?thesis
    by (simp add: main_generate_fails [OF assms])
qed

text \<open>
  C7, at a run over 33 elements whose generation routine fails on the second batch.
\<close>

theorem generation_failure_aborts_run_witness:
  "fst (main args0 (world_with net1) (Some ''old'')) = Some (RuntimeError ''CUDA out of memory'') \<and>
   trace (snd (main args0 (world_with net1) (Some ''old''))) =
     [LOAD_TOKENIZER, LOAD_INPUT, LOAD_CHECKPOINT,
      ENCODE 0 32, GENERATE 0 128, DECODE 0, APPEND_TO_OUTPUT 0,
      ENCODE 1 1, GENERATE 1 128]"
proof -
  let ?m = "\<lparr>model = net1, ft_tokenizer = tok0\<rparr>"
  let ?b0 = "\<lparr>source_ids = replicate 32 [0], source_mask = replicate 32 [1]\<rparr>"
  let ?b1 = "\<lparr>source_ids = [ [7] ], source_mask = [ [1] ]\<rparr>"
  have ok: "passes_complete (world_with net1) (model ?m) tok0 (device_of args0) 0 [?b0]"
    by (simp add: pass_completes0 generation_fails_def net1_def)
  have mv: "moved (world_with net1) (device_of args0) ?b1"
    by (rule moved0)
  have bad: "generate (model ?m) (source_ids ?b1) (source_mask ?b1) 128
      = Inl (RuntimeError ''CUDA out of memory'')"
    by (simp add: net1_def)
  from generation_failure_aborts_run [OF startup0 [of net1 "Some ''old''"] batches0 ok mv bad]
  show ?thesis
    by simp
qed

subsection \<open>C8: a bad checkpoint or input file is fatal at start-up\<close>

text \<open>
  C8. When the input file cannot be read or the checkpoint is missing or corrupt, the run
  fails during start-up: it ends with an error, it has taken no step other than the three
  loading steps (so nothing was generated, decoded or written), and the results file is as
  it was.
\<close>

theorem invalid_checkpoint_or_input_is_fatal_at_startup:
  assumes "input_unreadable a w \<or> checkpoint_invalid a w"
  shows "fst (main a w f0) \<noteq> None \<and>
         set (trace (snd (main a w f0))) \<subseteq> {LOAD_TOKENIZER, LOAD_INPUT, LOAD_CHECKPOINT} \<and>
         results_file (snd (main a w f0)) = f0"
proof -
  from startup_Inl [OF assms, of "\<lparr>trace = [], results_file = f0\<rparr>"] obtain e where
    e: "fst (startup a w \<lparr>trace = [], results_file = f0\<rparr>) = Inl e"
    by (cases "fst (startup a w \<lparr>trace = [], results_file = f0\<rparr>)") auto
  from startup_trace [of a w "\<lparr>trace = [], results_file = f0\<rparr>"] obtain evs where
    evs: "prefix evs [LOAD_TOKENIZER, LOAD_INPUT, LOAD_CHECKPOINT]"
      "trace (snd (startup a w \<lparr>trace = [], results_file = f0\<rparr>)) = evs"
    by auto
  from set_mono_prefix [OF evs(1)]
  have "set evs \<subseteq> {LOAD_TOKENIZER, LOAD_INPUT, LOAD_CHECKPOINT}" by simp
  then show ?thesis
    unfolding main_startup_fail [OF e] snd_conv fst_conv evs(2)
    by (simp add: startup_results_file)
qed

text \<open>
  C8, at a run with a missing checkpoint and at a run with a missing input file.
\<close>

theorem invalid_checkpoint_or_input_is_fatal_at_startup_witness:
  "checkpoint_invalid (args0\<lparr>ckpt := ''missing.ckpt''\<rparr>) (world_with net0) \<and>
   input_unreadable (args0\<lparr>file_path := ''missing.txt''\<rparr>) (world_with net0) \<and>
   fst (main (args0\<lparr>ckpt := ''missing.ckpt''\<rparr>) (world_with net0) (Some ''old'')) \<noteq> None \<and>
   results_file (snd (main (args0\<lparr>ckpt := ''missing.ckpt''\<rparr>) (world_with net0) (Some ''old'')))
     = Some ''old'' \<and>
   results_file (snd (main (args0\<lparr>file_path := ''missing.txt''\<rparr>) (world_with net0) None))
     = None"
proof -
  have c: "checkpoint_invalid (args0\<lparr>ckpt := ''missing.ckpt''\<rparr>) (world_with net0)"
    by (simp add: checkpoint_invalid_def args0_def world_with_def)
  have i: "input_unreadable (args0\<lparr>file_path := ''missing.txt''\<rparr>) (world_with net0)"
    by (simp add: input_unreadable_def args0_def world_with_def)
  from c i
    invalid_checkpoint_or_input_is_fatal_at_startup [OF disjI2 [OF c], of "Some ''old''"]
    invalid_checkpoint_or_input_is_fatal_at_startup [OF disjI1 [OF i], of None]
  show ?thesis by simp
qed

subsection \<open>C9: the training step relabels the padding in place\<close>

text \<open>
  C9. When the batch has a tensor under \<^verbatim>\<open>target_ids\<close>, at address \<open>a\<close>, the
  step leaves the store so that this tensor has its shape unchanged, every entry that
  was equal to the pad token id is \<open>-100\<close> and every other entry is as before; and
  every tensor at another address (those under \<^verbatim>\<open>source_ids\<close>, \<^verbatim>\<open>source_mask\<close> and
  \<^verbatim>\<open>target_mask\<close> among them, when they are tensors of their own) is unchanged. This
  holds whether the forward call returns or raises.
\<close>

theorem step_relabels_padding_in_place:
  assumes "batch ''target_ids'' = Some a"
  shows "length (snd (step self batch h) a) = length (h a) \<and>
         (\<forall>i<length (h a).
            length (snd (step self batch h) a ! i) = length (h a ! i) \<and>
            (\<forall>j<length (h a ! i).
               snd (step self batch h) a ! i ! j =
                 (if h a ! i ! j = pad_token_id (ft_tokenizer self) then - 100
                  else h a ! i ! j))) \<and>
         (\<forall>a'. a' \<noteq> a \<longrightarrow> snd (step self batch h) a' = h a')"
  by (simp add: step_store [where batch = batch and a = a, OF assms] masked_fill_def)

text \<open>
  C9, at a batch of two examples with pad id 0.
\<close>

theorem step_relabels_padding_in_place_witness:
  "batch0 ''target_ids'' = Some 2 \<and>
   store0 2 = [ [8, 9, 0], [4, 0, 0] ] \<and>
   snd (step \<lparr>model = net0, ft_tokenizer = tok0\<rparr> batch0 store0) 2 ! 0 ! 1 = 9 \<and>
   snd (step \<lparr>model = net0, ft_tokenizer = tok0\<rparr> batch0 store0) 2 ! 0 ! 2 = - 100 \<and>
   snd (step \<lparr>model = net0, ft_tokenizer = tok0\<rparr> batch0 store0) 0 = store0 0 \<and>
   snd (step \<lparr>model = net0, ft_tokenizer = tok0\<rparr> batch0 store0) 1 = store0 1 \<and>
   snd (step \<lparr>model = net0, ft_tokenizer = tok0\<rparr> batch0 store0) 3 = store0 3"
proof -
  have b: "batch0 ''target_ids'' = Some 2"
    by (simp add: batch0_def)
  have s: "store0 2 = [ [8, 9, 0], [4, 0, 0] ]"
    by (simp add: store0_def)
  from step_relabels_padding_in_place [where batch = batch0 and a = 2 and h = store0
      and self = "\<lparr>model = net0, ft_tokenizer = tok0\<rparr>", OF b]
  show ?thesis
    unfolding s by (simp add: b tok0_def)
qed

subsection \<open>C10: the maximum output length\<close>

text \<open>
  C10. The driver calls the generation routine on every batch with a maximum output length
  of exactly 128, whatever the arguments of the run are (the value of
  \<^verbatim>\<open>--max_seq_length\<close> among them). Every \<open>GENERATE\<close> step of any run carries 128.
  On every batch that a run reaches (its start-up succeeded, the passes before the batch
  are complete and the tensors of the batch are on the device) the step \<open>GENERATE\<close> with
  128 is taken, and an error of the routine called with 128 on that batch is the error of the
  run. The lines that a completed run appends are the decoded rows that the routine, called
  with 128, returns for the batches.
\<close>

theorem generate_called_with_max_length_128:
  "(\<forall>k ml. GENERATE k ml \<in> set (trace (snd (main a w f0))) \<longrightarrow> ml = 128) \<and>
   (\<forall>tk dl m st1.
      startup a w \<lparr>trace = [], results_file = f0\<rparr> = (Inr (tk, dl, m), st1) \<longrightarrow>
      (\<forall>pre b post.
         batches dl = pre @ b # post \<and>
         passes_complete w (model m) tk (device_of a) 0 pre \<and> moved w (device_of a) b \<longrightarrow>
           GENERATE (length pre) 128 \<in> set (trace (snd (main a w f0))) \<and>
           (\<forall>e. generate (model m) (source_ids b) (source_mask b) 128 = Inl e \<longrightarrow>
                fst (main a w f0) = Some e)) \<and>
      (fst (main a w f0) = None \<longrightarrow>
         results_file (snd (main a w f0)) =
           (if batches dl = [] then f0
            else Some (open_append f0 @
                  concat (map (\<lambda>d. d @ [newline])
                    (concat (map
                      (\<lambda>b. case generate (model m) (source_ids b) (source_mask b) 128 of
                             Inl e \<Rightarrow> []
                           | Inr outs \<Rightarrow>
                               (case decode_all tk outs of Inl e \<Rightarrow> [] | Inr ds \<Rightarrow> ds))
                      (batches dl))))))))"
proof (intro conjI allI impI)
  fix k ml
  assume g: "GENERATE k ml \<in> set (trace (snd (main a w f0)))"
  from main_trace [of a w f0] obtain bs where
    "prefix (trace (snd (main a w f0)))
       ([LOAD_TOKENIZER, LOAD_INPUT, LOAD_CHECKPOINT] @ passes 0 bs @ [DONE]) \<and>
     (fst (main a w f0) = None \<longrightarrow>
        trace (snd (main a w f0)) =
          [LOAD_TOKENIZER, LOAD_INPUT, LOAD_CHECKPOINT] @ passes 0 bs @ [DONE])" ..
  then have "prefix (trace (snd (main a w f0)))
       ([LOAD_TOKENIZER, LOAD_INPUT, LOAD_CHECKPOINT] @ passes 0 bs @ [DONE])"
    by (rule conjunct1)
  from set_mono_prefix [OF this] g have "GENERATE k ml \<in> set (passes 0 bs)"
    by auto
  then show "ml = 128" by (rule passes_generate)
next
  fix tk dl m st1 pre b post
  assume s: "startup a w \<lparr>trace = [], results_file = f0\<rparr> = (Inr (tk, dl, m), st1)"
    and h: "batches dl = pre @ b # post \<and>
      passes_complete w (model m) tk (device_of a) 0 pre \<and> moved w (device_of a) b"
  from h have bs: "batches dl = pre @ b # post"
    and pre: "passes_complete w (model m) tk (device_of a) 0 pre"
    and mv: "moved w (device_of a) b"
    by simp_all
  from loop_reaches_generate [OF pre mv, of post st1]
  have "GENERATE (length pre) 128 \<in>
      set (trace (snd (inference_loop w (model m) tk (device_of a) (batches dl) 0 st1)))"
    by (simp add: bs)
  with main_trace_grows [OF s]
  show "GENERATE (length pre) 128 \<in> set (trace (snd (main a w f0)))"
    by (rule set_mp)
  fix e
  assume "generate (model m) (source_ids b) (source_mask b) 128 = Inl e"
  from main_generate_fails [OF s bs pre mv this]
  show "fst (main a w f0) = Some e" by simp
next
  fix tk dl m st1
  assume s: "startup a w \<lparr>trace = [], results_file = f0\<rparr> = (Inr (tk, dl, m), st1)"
    and n: "fst (main a w f0) = None"
  from main_None [OF s n] have c: "passes_complete w (model m) tk (device_of a) 0 (batches dl)"
    and l: "loader_error dl = None"
    by simp_all
  have "predictions (model m) tk =
      (\<lambda>b. case generate (model m) (source_ids b) (source_mask b) 128 of
             Inl e \<Rightarrow> []
           | Inr outs \<Rightarrow> (case decode_all tk outs of Inl e \<Rightarrow> [] | Inr ds \<Rightarrow> ds))"
    by (rule ext) (simp add: predictions_def generated_def split: sum.splits)
  then show "results_file (snd (main a w f0)) =
           (if batches dl = [] then f0
            else Some (open_append f0 @
                  concat (map (\<lambda>d. d @ [newline])
                    (concat (map
                      (\<lambda>b. case generate (model m) (source_ids b) (source_mask b) 128 of
                             Inl e \<Rightarrow> []
                           | Inr outs \<Rightarrow>
                               (case decode_all tk outs of Inl e \<Rightarrow> [] | Inr ds \<Rightarrow> ds))
                      (batches dl))))))"
    by (simp add: main_complete [OF s c l])
qed

text \<open>
  C10, at runs with \<^verbatim>\<open>--max_seq_length 64\<close>: the second batch is generated with 128
  and not with 64, and when the routine raises on it, the run ends with that error.
\<close>

theorem generate_called_with_max_length_128_witness:
  "max_seq_length args0 = 64 \<and>
   GENERATE 1 128 \<in> set (trace (snd (main args0 (world_with net0) None))) \<and>
   GENERATE 1 64 \<notin> set (trace (snd (main args0 (world_with net0) None))) \<and>
   fst (main args0 (world_with net1) None) = Some (RuntimeError ''CUDA out of memory'')"
proof -
  let ?b0 = "\<lparr>source_ids = replicate 32 [0], source_mask = replicate 32 [1]\<rparr>"
  let ?b1 = "\<lparr>source_ids = [ [7] ], source_mask = [ [1] ]\<rparr>"
  have ok0: "passes_complete (world_with net0) (model \<lparr>model = net0, ft_tokenizer = tok0\<rparr>) tok0
      (device_of args0) 0 [?b0]"
    by (simp add: pass_completes0 generation_fails_def net0_def)
  have ok1: "passes_complete (world_with net1) (model \<lparr>model = net1, ft_tokenizer = tok0\<rparr>) tok0
      (device_of args0) 0 [?b0]"
    by (simp add: pass_completes0 generation_fails_def net1_def)
  have bad: "generate (model \<lparr>model = net1, ft_tokenizer = tok0\<rparr>) (source_ids ?b1)
      (source_mask ?b1) 128 = Inl (RuntimeError ''CUDA out of memory'')"
    by (simp add: net1_def)
  note t0 = generate_called_with_max_length_128 [of args0 "world_with net0" None]
  note t1 = generate_called_with_max_length_128 [of args0 "world_with net1" None]
  from t0 have all: "\<forall>k ml. GENERATE k ml \<in> set (trace (snd (main args0 (world_with net0) None)))
      \<longrightarrow> ml = 128"
    by (rule conjunct1)
  from t0 startup0 [of net0 None] batches0 ok0 moved0 [of net0 "device_of args0" ?b1]
  have "GENERATE (length [?b0]) 128 \<in> set (trace (snd (main args0 (world_with net0) None)))"
    by blast
  moreover have "GENERATE 1 64 \<notin> set (trace (snd (main args0 (world_with net0) None)))"
  proof
    assume "GENERATE 1 64 \<in> set (trace (snd (main args0 (world_with net0) None)))"
    with all have "(64::int) = 128" by blast
    then show False by simp
  qed
  moreover from t1 startup0 [of net1 None] batches0 ok1 moved0 [of net1 "device_of args0" ?b1] bad
  have "fst (main args0 (world_with net1) None) = Some (RuntimeError ''CUDA out of memory'')"
    by blast
  moreover have "max_seq_length args0 = 64"
    by (simp add: args0_def)
  ultimately show ?thesis by simp
qed

end
